theory Spec2Isabelle
  imports Complex_Main
begin

section \<open>Data model of the quiz application\<close>

text \<open>
  The repository holds two builds of the browser front end, \<^verbatim>\<open>src/index.tsx\<close> and
  \<^verbatim>\<open>src/unnamed/part_000\<close>, and an Express back end, \<^verbatim>\<open>src/unnamed/part_001\<close>.
  The two front ends share the attempt engine almost line by line; where they differ
  (the scoring defaults, the stopwatch reset at the navigation limits, the previous
  button, the notifications) the model takes the build as a parameter.

  JavaScript numbers that hold marks, scores and seconds are modelled as exact reals;
  counters and indices as naturals; millisecond time stamps as integers.
\<close>

datatype build = Index_tsx | Part_000

record Question =
  question :: string
  options :: "string list"
  answer :: nat
  explanation :: string
  subject :: string
  topic :: string

record Test =
  id_test :: string
  name_test :: string
  questions :: "Question list"
  duration :: int
  language :: string
  createdAt :: int
  marksPerQuestion :: real
  negativeMarking :: real

datatype QuestionStatus = notVisited | notAnswered | answered | marked | markedAndAnswered

text \<open>
  An entry of \<^verbatim>\<open>timePerQuestion\<close>. Adding a number to an array hole
  (\<^verbatim>\<open>undefined\<close>) gives \<^verbatim>\<open>NaN\<close> in JavaScript.
\<close>

datatype num = Num real | NaN

text \<open>
  JavaScript arrays are modelled as partial maps from indices: an index that was never
  written reads as \<^verbatim>\<open>undefined\<close> (\<open>None\<close>), and a write at any index stores
  the value, as in the source. In \<open>userAnswers\<close> the stored value \<open>None\<close> is
  JavaScript's \<^verbatim>\<open>null\<close>.
\<close>

record TestAttempt =
  testId :: string
  testName :: string
  userAnswersA :: "nat \<Rightarrow> nat option option"
  timeTaken :: int
  timePerQuestionA :: "nat \<Rightarrow> num option"
  completedAt :: int
  score :: real
  totalQuestions :: nat
  correctAnswers :: nat
  incorrectAnswers :: nat
  unanswered :: nat
  fullTest :: Test

datatype notice = TimeUp | Submitted | MissingTest

text \<open>
  The module-level variables of the attempt engine, together with the three pieces of
  the browser they act on: the checked radio button of the rendered question, the
  \<^verbatim>\<open>performanceHistory\<close> entry of local storage, and the table of running intervals
  behind \<^verbatim>\<open>setInterval\<close> and \<^verbatim>\<open>clearInterval\<close>.
\<close>

record state =
  currentTest :: "Test option"
  currentQuestionIndex :: nat
  userAnswers :: "nat \<Rightarrow> nat option option"
  questionStatuses :: "nat \<Rightarrow> QuestionStatus option"
  timerInterval :: "nat option"
  timeRemaining :: int
  timePerQuestion :: "nat \<Rightarrow> num option"
  questionStartTime :: int
  checkedOption :: "nat option"
  performanceHistory :: "TestAttempt list"
  activeIntervals :: "nat list"
  nextHandle :: nat
  notices :: "notice list"

section \<open>Timer\<close>

definition clearInterval :: "nat \<Rightarrow> state \<Rightarrow> state" where
  "clearInterval h s = s\<lparr>activeIntervals := removeAll h (activeIntervals s)\<rparr>"

definition setInterval :: "state \<Rightarrow> nat \<times> state" where
  "setInterval s =
     (nextHandle s,
      s\<lparr>activeIntervals := activeIntervals s @ [nextHandle s],
        nextHandle := Suc (nextHandle s)\<rparr>)"

text \<open>\<^verbatim>\<open>if (timerInterval) window.clearInterval(timerInterval)\<close>: a handle is truthy
  unless it is \<^verbatim>\<open>null\<close> or \<open>0\<close>.\<close>

definition clearIfRunning :: "state \<Rightarrow> state" where
  "clearIfRunning s =
     (case timerInterval s of
        None \<Rightarrow> s
      | Some h \<Rightarrow> if h \<noteq> 0 then clearInterval h s else s)"

definition stopTimer :: "state \<Rightarrow> state" where
  "stopTimer s = (clearIfRunning s)\<lparr>timerInterval := None\<rparr>"

definition startTimer :: "state \<Rightarrow> state" where
  "startTimer s =
     (let (h, s1) = setInterval (clearIfRunning s)
      in s1\<lparr>timerInterval := Some h\<rparr>)"

section \<open>Attempt engine\<close>

fun plus_num :: "num option \<Rightarrow> real \<Rightarrow> num" where
  "plus_num (Some (Num v)) t = Num (v + t)"
| "plus_num _ t = NaN"

definition addTimeSpent :: "int \<Rightarrow> state \<Rightarrow> state" where
  "addTimeSpent now s =
     (let timeSpent = real_of_int (now - questionStartTime s) / 1000;
          i = currentQuestionIndex s
      in s\<lparr>timePerQuestion := (timePerQuestion s)(i \<mapsto> plus_num (timePerQuestion s i) timeSpent)\<rparr>)"

definition saveCurrentAnswer :: "state \<Rightarrow> state" where
  "saveCurrentAnswer s =
     (let i = currentQuestionIndex s;
          currentStatus = questionStatuses s i
      in s\<lparr>userAnswers := (userAnswers s)(i \<mapsto> checkedOption s),
           questionStatuses :=
             (if checkedOption s \<noteq> None then
                (questionStatuses s)(i \<mapsto>
                   (if currentStatus = Some marked \<or> currentStatus = Some markedAndAnswered
                    then markedAndAnswered else answered))
              else if currentStatus \<noteq> Some marked \<and> currentStatus \<noteq> Some markedAndAnswered
                then (questionStatuses s)(i \<mapsto> notAnswered)
              else questionStatuses s)\<rparr>)"

text \<open>
  Rendering a question checks the radio button whose index is the stored answer. The
  result \<open>None\<close> is the \<^verbatim>\<open>TypeError\<close> of reading a field of an absent question
  (or, in \<^verbatim>\<open>part_000\<close>, of an absent test).
\<close>

definition renderQuestionForAttempt :: "build \<Rightarrow> state \<Rightarrow> state option" where
  "renderQuestionForAttempt b s =
     (case currentTest s of
        None \<Rightarrow> (if b = Index_tsx then Some s else None)
      | Some t \<Rightarrow>
          if currentQuestionIndex s < length (questions t) then
            (let q = questions t ! currentQuestionIndex s
             in Some (s\<lparr>checkedOption :=
                  (case userAnswers s (currentQuestionIndex s) of
                     Some (Some k) \<Rightarrow> if k < length (options q) then Some k else None
                   | _ \<Rightarrow> None)\<rparr>))
          else None)"

definition startTest :: "build \<Rightarrow> int \<Rightarrow> Test \<Rightarrow> state \<Rightarrow> state option" where
  "startTest b now test s =
     (let n = length (questions test);
          s1 = s\<lparr>currentTest := Some test,
                 currentQuestionIndex := 0,
                 userAnswers := (\<lambda>i. if i < n then Some None else None),
                 questionStatuses := (\<lambda>i. if i < n then Some notVisited else None)(0 \<mapsto> notAnswered),
                 timeRemaining := duration test * 60,
                 timePerQuestion := (\<lambda>i. if i < n then Some (Num 0) else None),
                 questionStartTime := now\<rparr>
      in case renderQuestionForAttempt b s1 of
           None \<Rightarrow> None
         | Some s2 \<Rightarrow> Some (startTimer s2))"

definition navigateToQuestion :: "build \<Rightarrow> int \<Rightarrow> int \<Rightarrow> state \<Rightarrow> state option" where
  "navigateToQuestion b now newIndex s =
     (case currentTest s of
        None \<Rightarrow> (if b = Index_tsx then Some s else None)
      | Some t \<Rightarrow>
          (let s1 = saveCurrentAnswer (addTimeSpent now s) in
           if newIndex \<ge> int (length (questions t)) then
             Some (if b = Part_000 then s1\<lparr>questionStartTime := now\<rparr> else s1)
           else if newIndex < 0 then
             Some (if b = Part_000 then s1\<lparr>questionStartTime := now\<rparr> else s1)
           else
             (let s2 = s1\<lparr>currentQuestionIndex := nat newIndex, questionStartTime := now\<rparr>;
                  s3 = (if questionStatuses s2 (nat newIndex) = Some notVisited
                        then s2\<lparr>questionStatuses := (questionStatuses s2)(nat newIndex \<mapsto> notAnswered)\<rparr>
                        else s2)
              in renderQuestionForAttempt b s3)))"

definition markReview :: "build \<Rightarrow> int \<Rightarrow> state \<Rightarrow> state option" where
  "markReview b now s =
     (let i = currentQuestionIndex s;
          currentStatus = questionStatuses s i;
          s1 = (if currentStatus = Some answered \<or> currentStatus = Some markedAndAnswered
                then s\<lparr>questionStatuses := (questionStatuses s)(i \<mapsto> markedAndAnswered)\<rparr>
                else s\<lparr>questionStatuses := (questionStatuses s)(i \<mapsto> marked)\<rparr>)
      in navigateToQuestion b now (int i + 1) s1)"

text \<open>The number of radio buttons on the page: the options of the rendered question.\<close>

definition renderedOptions :: "state \<Rightarrow> nat" where
  "renderedOptions s =
     (case currentTest s of
        None \<Rightarrow> 0
      | Some t \<Rightarrow>
          if currentQuestionIndex s < length (questions t)
          then length (options (questions t ! currentQuestionIndex s)) else 0)"

definition paletteButtons :: "state \<Rightarrow> nat" where
  "paletteButtons s = (case currentTest s of None \<Rightarrow> 0 | Some t \<Rightarrow> length (questions t))"

text \<open>
  What the user can do during an attempt: check a radio button (by mouse or with the
  keys 1 to 4), clear the response, save and go on, go back (a button of
  \<^verbatim>\<open>index.tsx\<close> only), click a palette button, mark for review. Every event carries
  the reading of \<^verbatim>\<open>Date.now()\<close> at which it is handled.
\<close>

datatype action = Select nat | Clear | SaveNext | Prev | Palette nat | MarkReview

fun step :: "build \<Rightarrow> state \<Rightarrow> int \<times> action \<Rightarrow> state option" where
  "step b s (now, Select k) =
     Some (if k < renderedOptions s then s\<lparr>checkedOption := Some k\<rparr> else s)"
| "step b s (now, Clear) = Some (s\<lparr>checkedOption := None\<rparr>)"
| "step b s (now, SaveNext) = navigateToQuestion b now (int (currentQuestionIndex s) + 1) s"
| "step b s (now, Prev) =
     (if b = Index_tsx then navigateToQuestion b now (int (currentQuestionIndex s) - 1) s
      else Some s)"
| "step b s (now, Palette j) =
     (if j < paletteButtons s \<and> j \<noteq> currentQuestionIndex s
      then navigateToQuestion b now (int j) s else Some s)"
| "step b s (now, MarkReview) = markReview b now s"

fun run :: "build \<Rightarrow> state \<Rightarrow> (int \<times> action) list \<Rightarrow> state option" where
  "run b s [] = Some s"
| "run b s (e # es) = (case step b s e of None \<Rightarrow> None | Some s' \<Rightarrow> run b s' es)"

section \<open>Submission and scoring\<close>

text \<open>The \<^verbatim>\<open>forEach\<close> over the questions of the test, with its three counters
  (correct, incorrect, unanswered) and the running index.\<close>

fun tally :: "(nat \<Rightarrow> nat option option) \<Rightarrow> Question list \<Rightarrow> nat \<Rightarrow> nat \<times> nat \<times> nat \<Rightarrow> nat \<times> nat \<times> nat" where
  "tally ua [] index acc = acc"
| "tally ua (q # qs) index (c, w, u) =
     tally ua qs (Suc index)
       (if ua index = Some None then (c, w, Suc u)
        else if ua index = Some (Some (answer q)) then (Suc c, w, u)
        else (c, Suc w, u))"

text \<open>\<^verbatim>\<open>x || d\<close> on numbers: the default replaces a zero (and a missing field).\<close>

definition or_default :: "real \<Rightarrow> real \<Rightarrow> real" where
  "or_default x d = (if x = 0 then d else x)"

definition defaultMarks :: "build \<Rightarrow> real" where
  "defaultMarks b = (case b of Index_tsx \<Rightarrow> 2 | Part_000 \<Rightarrow> 1)"

definition defaultNegative :: "build \<Rightarrow> real" where
  "defaultNegative b = (case b of Index_tsx \<Rightarrow> 0.66 | Part_000 \<Rightarrow> 0)"

definition scorePercentage :: "build \<Rightarrow> Test \<Rightarrow> nat \<Rightarrow> nat \<Rightarrow> real" where
  "scorePercentage b t correct incorrect =
     (let marksPerQ = or_default (marksPerQuestion t) (defaultMarks b);
          negMark = or_default (negativeMarking t) (defaultNegative b);
          rawScore = real correct * marksPerQ - real incorrect * negMark;
          totalMaxScore = real (length (questions t)) * marksPerQ
      in if totalMaxScore > 0 then max 0 (rawScore / totalMaxScore * 100) else 0)"

definition makeAttempt :: "build \<Rightarrow> int \<Rightarrow> Test \<Rightarrow> state \<Rightarrow> TestAttempt" where
  "makeAttempt b now t s =
     (case tally (userAnswers s) (questions t) 0 (0, 0, 0) of
        (c, w, u) \<Rightarrow>
          \<lparr>testId = id_test t,
           testName = name_test t,
           userAnswersA = userAnswers s,
           timeTaken = duration t * 60 - timeRemaining s,
           timePerQuestionA = timePerQuestion s,
           completedAt = now,
           score = scorePercentage b t c w,
           totalQuestions = length (questions t),
           correctAnswers = c,
           incorrectAnswers = w,
           unanswered = u,
           fullTest = t\<rparr>)"

definition handleSubmitTest :: "build \<Rightarrow> int \<Rightarrow> state \<Rightarrow> state" where
  "handleSubmitTest b now s =
     (let s1 = saveCurrentAnswer (addTimeSpent now (stopTimer s)) in
      case currentTest s1 of
        None \<Rightarrow> s1\<lparr>notices := notices s1 @ [MissingTest]\<rparr>
      | Some t \<Rightarrow>
          s1\<lparr>performanceHistory := makeAttempt b now t s1 # performanceHistory s1,
             currentTest := None,
             notices := (if b = Index_tsx then notices s1 @ [Submitted] else notices s1)\<rparr>)"

text \<open>The callback of the interval, and the browser firing it: only a running
  interval fires.\<close>

definition tick :: "build \<Rightarrow> int \<Rightarrow> state \<Rightarrow> state" where
  "tick b now s =
     (let s1 = s\<lparr>timeRemaining := timeRemaining s - 1\<rparr> in
      if timeRemaining s1 \<le> 0 then
        (let s2 = stopTimer s1;
             s3 = s2\<lparr>notices := notices s2 @ [TimeUp]\<rparr>
         in handleSubmitTest b now s3)
      else s1)"

definition intervalFires :: "build \<Rightarrow> int \<Rightarrow> nat \<Rightarrow> state \<Rightarrow> state option" where
  "intervalFires b now h s =
     (if h \<in> set (activeIntervals s) then Some (tick b now s) else None)"

text \<open>Manual submit (\<^verbatim>\<open>index.tsx\<close> asks for confirmation first) and abandon.\<close>

definition submitClicked :: "build \<Rightarrow> int \<Rightarrow> bool \<Rightarrow> state \<Rightarrow> state" where
  "submitClicked b now confirmed s =
     (if b = Part_000 \<or> confirmed then handleSubmitTest b now s else s)"

definition abandonClicked :: "build \<Rightarrow> bool \<Rightarrow> state \<Rightarrow> state" where
  "abandonClicked b confirmed s =
     (case b of
        Index_tsx \<Rightarrow>
          (if confirmed then (stopTimer s)\<lparr>currentTest := None\<rparr> else s)
      | Part_000 \<Rightarrow>
          (let timerWasRunning = (timerInterval s \<noteq> None);
               s1 = (if timerWasRunning then stopTimer s else s)
           in if confirmed then s1\<lparr>currentTest := None\<rparr>
              else if timerWasRunning then startTimer s1 else s1))"

text \<open>\<^verbatim>\<open>renderPerformanceReport\<close>: the accuracy shown on the report. A JavaScript
  division by zero gives \<^verbatim>\<open>NaN\<close> or an infinity; the model makes that the value
  \<open>None\<close>.\<close>

definition js_divide :: "real \<Rightarrow> real \<Rightarrow> real option" where
  "js_divide x y = (if y = 0 then None else Some (x / y))"

definition accuracy :: "TestAttempt \<Rightarrow> real option" where
  "accuracy attempt =
     (let attemptedCount = correctAnswers attempt + incorrectAnswers attempt
      in if attemptedCount > 0
         then map_option (\<lambda>r. r * 100) (js_divide (real (correctAnswers attempt)) (real attemptedCount))
         else Some 0)"

section \<open>Invariants, the specification's wording, and example data\<close>

text \<open>
  During an attempt the test is loaded, the current index is one of its questions, and
  every answer slot of the test holds a value (an option index or null, never a hole).
\<close>

definition attempt_inv :: "Test \<Rightarrow> state \<Rightarrow> bool" where
  "attempt_inv t s \<longleftrightarrow>
     currentTest s = Some t \<and> currentQuestionIndex s < length (questions t) \<and>
     (\<forall>i < length (questions t). userAnswers s i \<noteq> None)"

text \<open>The two statuses that carry the review mark.\<close>

definition isMarked :: "QuestionStatus option \<Rightarrow> bool" where
  "isMarked st \<longleftrightarrow> st = Some marked \<or> st = Some markedAndAnswered"

text \<open>The module-level variables as the script initialises them, in a browser that
  has handed out no interval yet.\<close>

definition initialState :: state where
  "initialState =
     \<lparr>currentTest = None, currentQuestionIndex = 0, userAnswers = (\<lambda>i. None),
      questionStatuses = (\<lambda>i. None), timerInterval = None, timeRemaining = 0,
      timePerQuestion = (\<lambda>i. None), questionStartTime = 0, checkedOption = None,
      performanceHistory = [], activeIntervals = [], nextHandle = 1, notices = []\<rparr>"

text \<open>A test of two questions whose correct options are the first and the third.\<close>

definition exampleQuestion :: "nat \<Rightarrow> Question" where
  "exampleQuestion a =
     \<lparr>question = ''Q'', options = [''A'', ''B'', ''C'', ''D''], answer = a,
      explanation = ''E'', subject = ''Polity'', topic = ''Parliament''\<rparr>"

definition exampleTest :: "real \<Rightarrow> real \<Rightarrow> Test" where
  "exampleTest marks negative =
     \<lparr>id_test = ''test_1'', name_test = ''Example'',
      questions = [exampleQuestion 0, exampleQuestion 2],
      duration = 30, language = ''English'', createdAt = 0,
      marksPerQuestion = marks, negativeMarking = negative\<rparr>"

text \<open>The score as the specification words it.\<close>

definition claimed_score :: "Test \<Rightarrow> nat \<Rightarrow> nat \<Rightarrow> real" where
  "claimed_score t correct incorrect =
     max 0 ((real correct * marksPerQuestion t - real incorrect * negativeMarking t)
              / (real (length (questions t)) * marksPerQuestion t) * 100)"

text \<open>The user picks the first option of question 1 (right), saves, and picks the
  second option of question 2 (wrong).\<close>

definition oneRightOneWrong :: "(int \<times> action) list" where
  "oneRightOneWrong = [(1000, Select 0), (2000, SaveNext), (3000, Select 1)]"

text \<open>The attempt recorded when a test is started at time 0 in a fresh page, the
  actions are performed and the test is submitted at \<open>now\<close>.\<close>

definition attemptOf :: "build \<Rightarrow> Test \<Rightarrow> (int \<times> action) list \<Rightarrow> int \<Rightarrow> TestAttempt option" where
  "attemptOf b t acts now =
     (case startTest b 0 t initialState of
        None \<Rightarrow> None
      | Some s1 \<Rightarrow>
          (case run b s1 acts of
             None \<Rightarrow> None
           | Some s2 \<Rightarrow>
               (case performanceHistory (handleSubmitTest b now s2) of
                  [] \<Rightarrow> None
                | a # _ \<Rightarrow> Some a)))"

definition score_as_claimed :: "TestAttempt \<Rightarrow> bool" where
  "score_as_claimed a \<longleftrightarrow>
     score a = claimed_score (fullTest a) (correctAnswers a) (incorrectAnswers a)"

definition oneQuestionTest :: Test where
  "oneQuestionTest =
     \<lparr>id_test = ''test_2'', name_test = ''Single'', questions = [exampleQuestion 0],
      duration = 30, language = ''English'', createdAt = 0,
      marksPerQuestion = 2, negativeMarking = 0.66\<rparr>"

text \<open>Two states of an attempt on the example test, on its first question: one in
  which that question is marked with the answer 1 stored and the radio buttons
  cleared, and one right after the start.\<close>

definition markedState :: state where
  "markedState =
     initialState\<lparr>currentTest := Some (exampleTest 2 0.66),
       userAnswers := (\<lambda>i. if i < 2 then Some None else None)(0 \<mapsto> Some 1),
       questionStatuses := (\<lambda>i. if i < 2 then Some notVisited else None)(0 \<mapsto> markedAndAnswered),
       timeRemaining := 1800,
       timePerQuestion := (\<lambda>i. if i < 2 then Some (Num 0) else None)\<rparr>"

definition freshState :: state where
  "freshState =
     initialState\<lparr>currentTest := Some (exampleTest 2 0.66),
       userAnswers := (\<lambda>i. if i < 2 then Some None else None),
       questionStatuses := (\<lambda>i. if i < 2 then Some notVisited else None)(0 \<mapsto> notAnswered),
       timeRemaining := 1800,
       timePerQuestion := (\<lambda>i. if i < 2 then Some (Num 0) else None)\<rparr>"

text \<open>
  The invariant of the timer: the handle in \<^verbatim>\<open>timerInterval\<close> is the one running
  interval, and handles are positive and below the next one the browser hands out.
  A session interleaves ticks of the running interval with the actions of the user;
  \<open>ticksIn\<close> counts its ticks.
\<close>

definition timer_inv :: "state \<Rightarrow> bool" where
  "timer_inv s \<longleftrightarrow>
     0 < nextHandle s \<and>
     (\<forall>h \<in> set (activeIntervals s). 0 < h \<and> h < nextHandle s) \<and>
     activeIntervals s = (case timerInterval s of None \<Rightarrow> [] | Some h \<Rightarrow> [h])"

datatype event = Tick | User action

fun session :: "build \<Rightarrow> state \<Rightarrow> (int \<times> event) list \<Rightarrow> state option" where
  "session b s [] = Some s"
| "session b s ((now, Tick) # es) =
     (case timerInterval s of
        None \<Rightarrow> None
      | Some h \<Rightarrow>
          (case intervalFires b now h s of
             None \<Rightarrow> None
           | Some s' \<Rightarrow> session b s' es))"
| "session b s ((now, User a) # es) =
     (case step b s (now, a) of
        None \<Rightarrow> None
      | Some s' \<Rightarrow> session b s' es)"

definition ticksIn :: "(int \<times> event) list \<Rightarrow> nat" where
  "ticksIn es = length (filter (\<lambda>e. snd e = Tick) es)"

text \<open>An attempt with one second left on its running timer.\<close>

definition lastSecondState :: state where
  "lastSecondState =
     freshState\<lparr>timerInterval := Some 1, activeIntervals := [1], nextHandle := 2,
       timeRemaining := 1\<rparr>"

section \<open>Backup restore\<close>

text \<open>
  \<^verbatim>\<open>new Map(entries)\<close>: a JavaScript map keeps its keys in insertion order; setting a
  key that is present replaces the value in place, setting a new key appends it.
\<close>

fun map_set :: "'k \<Rightarrow> 'v \<Rightarrow> ('k \<times> 'v) list \<Rightarrow> ('k \<times> 'v) list" where
  "map_set k v [] = [(k, v)]"
| "map_set k v ((k', v') # m) =
     (if k' = k then (k', v) # m else (k', v') # map_set k v m)"

definition new_Map :: "('k \<times> 'v) list \<Rightarrow> ('k \<times> 'v) list" where
  "new_Map entries = foldl (\<lambda>m (k, v). map_set k v m) [] entries"

definition map_values :: "('k \<times> 'v) list \<Rightarrow> 'v list" where
  "map_values m = map snd m"

text \<open>
  The parsed backup file: each of the two fields is an array or not (\<open>None\<close>). The
  function is the body of the \<^verbatim>\<open>confirm\<close> branch of the restore listener, the same
  in both builds (\<^verbatim>\<open>part_000\<close> enters it only when one of the fields is an array),
  on the two local-storage entries it reads and writes.
\<close>

record backupFile =
  tests_backup :: "Test list option"
  performanceHistory_backup :: "TestAttempt list option"

definition restoreBackup ::
  "bool \<Rightarrow> backupFile \<Rightarrow> Test list \<times> TestAttempt list \<Rightarrow> Test list \<times> TestAttempt list" where
  "restoreBackup confirmed data storage =
     (if confirmed then
        (let currentTests = fst storage;
             currentHistory = snd storage;
             newTests = (case tests_backup data of
                           Some ts \<Rightarrow> ts @ currentTests | None \<Rightarrow> currentTests);
             newHistory = (case performanceHistory_backup data of
                             Some hs \<Rightarrow> hs @ currentHistory | None \<Rightarrow> currentHistory);
             uniqueTests = map_values (new_Map (map (\<lambda>item. (id_test item, item)) newTests))
         in (uniqueTests, newHistory))
      else storage)"

definition importedCopy :: Test where
  "importedCopy = (exampleTest 2 0.66)\<lparr>name_test := ''Imported''\<rparr>"

definition localCopy :: Test where
  "localCopy = (exampleTest 2 0.66)\<lparr>name_test := ''Local''\<rparr>"

definition backupTests :: "backupFile \<Rightarrow> Test list" where
  "backupTests data = (case tests_backup data of Some ts \<Rightarrow> ts | None \<Rightarrow> [])"

definition sameIdBackup :: backupFile where
  "sameIdBackup = \<lparr>tests_backup = Some [importedCopy], performanceHistory_backup = None\<rparr>"

section \<open>Back end\<close>

text \<open>
  The payload of a session token. \<^verbatim>\<open>jwt.verify(token, JWT_SECRET, ...)\<close> belongs to
  a library: the model takes it as a parameter \<open>verify\<close>, which gives the payload of a
  token that verifies and \<open>None\<close> for any other string.
\<close>

record tokenUser =
  id_user :: string
  email_user :: string
  name_user :: string

text \<open>
  A stored test or attempt is a JSON object: its \<^verbatim>\<open>id\<close> and \<^verbatim>\<open>userId\<close> fields,
  each a string or absent, and the text of its other fields. An array that has been
  stored in place of an object has neither field.
\<close>

record doc =
  id_doc :: "string option"
  userId :: "string option"
  content :: string

text \<open>
  An element of an array of the body of \<^verbatim>\<open>POST /api/sync\<close>: a JSON object, a nested
  array (with its text), or any other JSON value (null, a number, a string, a boolean).
\<close>

datatype json = ObjectValue doc | ArrayValue string | OtherValue

text \<open>The file behind \<^verbatim>\<open>lowdb\<close>, read at the start of every handler and written
  at its end. The \<^verbatim>\<open>users\<close> array is touched by register and login only.\<close>

record db =
  tests_db :: "doc list"
  attempts_db :: "doc list"

text \<open>
  The routes declared with the \<^verbatim>\<open>authenticateToken\<close> middleware; register and login
  are the two API routes declared without it. A field of the body of \<^verbatim>\<open>POST /api/sync\<close>
  is \<open>None\<close> when it is missing or not an array. \<open>PostAttempt\<close> carries the string
  \<^verbatim>\<open>attempt_${Date.now()}\<close> the handler makes.
\<close>

datatype route =
    Verify
  | GetTests
  | PostTest doc
  | DeleteTest string
  | GetAttempts
  | PostAttempt doc string
  | GetSync
  | PostSync "json list option" "json list option"

record request =
  authorization :: "string option"
  route :: route

datatype response =
    Status401
  | Status403
  | Status500
  | UserJson tokenUser
  | DocsJson "doc list"
  | SyncJson "doc list" "doc list"
  | SavedJson doc
  | MessageJson

text \<open>\<^verbatim>\<open>String.prototype.split\<close> on a one-character separator.\<close>

fun split_on :: "char \<Rightarrow> string \<Rightarrow> string list" where
  "split_on c [] = [[]]"
| "split_on c (x # xs) =
     (if x = c then [] # split_on c xs
      else (case split_on c xs of
              w # ws \<Rightarrow> (x # w) # ws
            | [] \<Rightarrow> [[x]]))"

text \<open>\<^verbatim>\<open>authHeader && authHeader.split(' ')[1]\<close>, with \<open>None\<close> for every falsy value
  (no header, an empty header, no second part, an empty second part).\<close>

definition bearerToken :: "string option \<Rightarrow> string option" where
  "bearerToken authHeader =
     (case authHeader of
        None \<Rightarrow> None
      | Some h \<Rightarrow>
          if h = [] then None
          else (case split_on CHR '' '' h of
                  _ # token # _ \<Rightarrow> if token = [] then None else Some token
                | _ \<Rightarrow> None))"

definition authenticateToken :: "(string \<Rightarrow> tokenUser option) \<Rightarrow> request \<Rightarrow> response + tokenUser" where
  "authenticateToken verify req =
     (case bearerToken (authorization req) of
        None \<Rightarrow> Inl Status401
      | Some token \<Rightarrow>
          (case verify token of
             None \<Rightarrow> Inl Status403
           | Some user \<Rightarrow> Inr user))"

fun findIndex :: "('a \<Rightarrow> bool) \<Rightarrow> 'a list \<Rightarrow> nat option" where
  "findIndex p [] = None"
| "findIndex p (x # xs) = (if p x then Some 0 else map_option Suc (findIndex p xs))"

text \<open>
  \<^verbatim>\<open>test.userId = req.user.id\<close> on an element of the body, as the element is found in
  the file after \<^verbatim>\<open>db.write()\<close>. The script is an ES module, so it runs in strict
  mode: the assignment throws a \<^verbatim>\<open>TypeError\<close> (\<open>None\<close>) on null and on every
  primitive. On a nested array it sets a property that \<^verbatim>\<open>JSON.stringify\<close> does not
  write, so the array is stored without an owner.
\<close>

fun setUserId :: "string \<Rightarrow> json \<Rightarrow> doc option" where
  "setUserId uid (ObjectValue x) = Some (x\<lparr>userId := Some uid\<rparr>)"
| "setUserId uid (ArrayValue text) = Some \<lparr>id_doc = None, userId = None, content = text\<rparr>"
| "setUserId uid OtherValue = None"

text \<open>The \<^verbatim>\<open>forEach\<close> that stamps and pushes the elements one by one, and its guard
  \<^verbatim>\<open>if (tests && Array.isArray(tests))\<close>.\<close>

fun pushEach :: "string \<Rightarrow> json list \<Rightarrow> doc list \<Rightarrow> doc list option" where
  "pushEach uid [] stored = Some stored"
| "pushEach uid (x # xs) stored =
     (case setUserId uid x of
        None \<Rightarrow> None
      | Some y \<Rightarrow> pushEach uid xs (stored @ [y]))"

definition pushArray :: "string \<Rightarrow> json list option \<Rightarrow> doc list \<Rightarrow> doc list option" where
  "pushArray uid field stored =
     (case field of
        Some xs \<Rightarrow> pushEach uid xs stored
      | None \<Rightarrow> Some stored)"

text \<open>
  The handlers behind the middleware. In \<^verbatim>\<open>POST /api/sync\<close> an exception reaches the
  \<^verbatim>\<open>catch\<close> of the handler before \<^verbatim>\<open>db.write()\<close>: the answer is 500 and the file,
  which every handler reads afresh, is as it was.
\<close>

definition serve :: "tokenUser \<Rightarrow> route \<Rightarrow> db \<Rightarrow> response \<times> db" where
  "serve user r d =
     (case r of
        Verify \<Rightarrow> (UserJson user, d)
      | GetTests \<Rightarrow>
          (DocsJson (filter (\<lambda>t. userId t = Some (id_user user)) (tests_db d)), d)
      | PostTest body \<Rightarrow>
          (let test = body\<lparr>userId := Some (id_user user)\<rparr> in
           case findIndex (\<lambda>t. id_doc t = id_doc test \<and> userId t = Some (id_user user)) (tests_db d) of
             Some existingIndex \<Rightarrow>
               (SavedJson test, d\<lparr>tests_db := (tests_db d)[existingIndex := test]\<rparr>)
           | None \<Rightarrow> (SavedJson test, d\<lparr>tests_db := tests_db d @ [test]\<rparr>))
      | DeleteTest i \<Rightarrow>
          (MessageJson,
           d\<lparr>tests_db := filter (\<lambda>t. \<not> (id_doc t = Some i \<and> userId t = Some (id_user user))) (tests_db d)\<rparr>)
      | GetAttempts \<Rightarrow>
          (DocsJson (filter (\<lambda>a. userId a = Some (id_user user)) (attempts_db d)), d)
      | PostAttempt body stamp \<Rightarrow>
          (let attempt = body\<lparr>userId := Some (id_user user), id_doc := Some stamp\<rparr>
           in (SavedJson attempt, d\<lparr>attempts_db := attempts_db d @ [attempt]\<rparr>))
      | GetSync \<Rightarrow>
          (SyncJson (filter (\<lambda>t. userId t = Some (id_user user)) (tests_db d))
                    (filter (\<lambda>a. userId a = Some (id_user user)) (attempts_db d)), d)
      | PostSync tests attempts \<Rightarrow>
          (let d1 = d\<lparr>tests_db := filter (\<lambda>t. userId t \<noteq> Some (id_user user)) (tests_db d),
                      attempts_db := filter (\<lambda>a. userId a \<noteq> Some (id_user user)) (attempts_db d)\<rparr>
           in case pushArray (id_user user) tests (tests_db d1) of
                None \<Rightarrow> (Status500, d)
              | Some tests2 \<Rightarrow>
                  (case pushArray (id_user user) attempts (attempts_db d1) of
                     None \<Rightarrow> (Status500, d)
                   | Some attempts2 \<Rightarrow>
                       (MessageJson, d1\<lparr>tests_db := tests2, attempts_db := attempts2\<rparr>))))"

definition handle :: "(string \<Rightarrow> tokenUser option) \<Rightarrow> db \<Rightarrow> request \<Rightarrow> response \<times> db" where
  "handle verify d req =
     (case authenticateToken verify req of
        Inl rejection \<Rightarrow> (rejection, d)
      | Inr user \<Rightarrow> serve user (route req) d)"

text \<open>The stored records a response carries, and the records of one account.\<close>

fun docsOf :: "response \<Rightarrow> doc list" where
  "docsOf (DocsJson ds) = ds"
| "docsOf (SyncJson ts as) = ts @ as"
| "docsOf (SavedJson x) = [x]"
| "docsOf _ = []"

definition ownedBy :: "string \<Rightarrow> doc list \<Rightarrow> doc list" where
  "ownedBy uid ds = filter (\<lambda>x. userId x = Some uid) ds"

definition isRead :: "route \<Rightarrow> bool" where
  "isRead r \<longleftrightarrow> r = GetTests \<or> r = GetAttempts \<or> r = GetSync"

text \<open>The shapes of a field of the sync body: whether an element other than an object
  or array occurs in it, whether all its elements are objects, and the objects it holds
  (none when the field is missing or not an array).\<close>

fun isObject :: "json \<Rightarrow> bool" where
  "isObject (ObjectValue x) = True"
| "isObject _ = False"

fun objectsIn :: "json list \<Rightarrow> doc list" where
  "objectsIn [] = []"
| "objectsIn (ObjectValue x # xs) = x # objectsIn xs"
| "objectsIn (_ # xs) = objectsIn xs"

definition hasOther :: "json list option \<Rightarrow> bool" where
  "hasOther field = (case field of Some xs \<Rightarrow> OtherValue \<in> set xs | None \<Rightarrow> False)"

definition allObjects :: "json list option \<Rightarrow> bool" where
  "allObjects field = (case field of Some xs \<Rightarrow> list_all isObject xs | None \<Rightarrow> True)"

definition arrayOrEmpty :: "json list option \<Rightarrow> doc list" where
  "arrayOrEmpty field = (case field of Some xs \<Rightarrow> objectsIn xs | None \<Rightarrow> [])"

definition stampOwner :: "string \<Rightarrow> doc \<Rightarrow> doc" where
  "stampOwner uid x = x\<lparr>userId := Some uid\<rparr>"

definition userA :: tokenUser where
  "userA = \<lparr>id_user = ''user_1'', email_user = ''a@example.org'', name_user = ''A''\<rparr>"

definition userB :: tokenUser where
  "userB = \<lparr>id_user = ''user_2'', email_user = ''b@example.org'', name_user = ''B''\<rparr>"

definition exampleVerify :: "string \<Rightarrow> tokenUser option" where
  "exampleVerify token =
     (if token = ''tokenA'' then Some userA else if token = ''tokenB'' then Some userB else None)"

definition docOf :: "string \<Rightarrow> string \<Rightarrow> doc" where
  "docOf i owner = \<lparr>id_doc = Some i, userId = Some owner, content = ''{}''\<rparr>"

definition exampleDb :: db where
  "exampleDb =
     \<lparr>tests_db = [docOf ''test_1'' ''user_1'', docOf ''test_2'' ''user_2''],
      attempts_db = [docOf ''attempt_1'' ''user_2'', docOf ''attempt_2'' ''user_1'']\<rparr>"

definition requestOf :: "string option \<Rightarrow> route \<Rightarrow> request" where
  "requestOf header r = \<lparr>authorization = header, route = r\<rparr>"

definition unownedDoc :: doc where
  "unownedDoc = \<lparr>id_doc = Some ''test_9'', userId = None, content = ''{}''\<rparr>"

text \<open>Two sync requests of the first user: one test object and no attempts field, and
  the body \<^verbatim>\<open>{"tests": [null], "attempts": []}\<close>.\<close>

definition objectSync :: request where
  "objectSync = requestOf (Some ''Bearer tokenA'') (PostSync (Some [ObjectValue unownedDoc]) None)"

definition nullSync :: request where
  "nullSync = requestOf (Some ''Bearer tokenA'') (PostSync (Some [OtherValue]) (Some []))"

section \<open>Streak\<close>

text \<open>
  \<^verbatim>\<open>calculateStreak\<close> works on local calendar dates. A calendar day is numbered by its
  count of days since 1 January 1970, and the time zone of the browser is given by the
  function \<open>midnight\<close>: the instant (milliseconds since the epoch, UTC) at which local
  day \<open>d\<close> starts. \<^verbatim>\<open>new Date(t).toDateString()\<close> names the local day that holds
  the instant \<open>t\<close>, and \<^verbatim>\<open>new Date(dateString).getTime()\<close> is the midnight that
  starts the named day. Local midnights lie within a day of their UTC namesakes.
\<close>

definition dayMs :: int where
  "dayMs = 86400000"

definition toDateString :: "(int \<Rightarrow> int) \<Rightarrow> int \<Rightarrow> int" where
  "toDateString midnight t =
     (let d0 = t div dayMs
      in if midnight (d0 + 1) \<le> t then d0 + 1
         else if midnight d0 \<le> t then d0
         else d0 - 1)"

text \<open>\<^verbatim>\<open>[...new Set(dates)]\<close>: the first occurrence of each value, in order.\<close>

definition js_Set :: "'a list \<Rightarrow> 'a list" where
  "js_Set xs = foldl (\<lambda>acc x. if x \<in> set acc then acc else acc @ [x]) [] xs"

text \<open>The loop of \<^verbatim>\<open>calculateStreak\<close> from index 1, with \<open>prev\<close> the date before
  the ones left.\<close>

fun streakLoop :: "(int \<Rightarrow> int) \<Rightarrow> int \<Rightarrow> int list \<Rightarrow> nat \<Rightarrow> nat" where
  "streakLoop midnight prev [] streak = streak"
| "streakLoop midnight prev (current # rest) streak =
     (if real_of_int (midnight prev - midnight current) / 86400000 = 1
      then streakLoop midnight current rest (Suc streak)
      else streak)"

text \<open>The comparator of the sort is \<^verbatim>\<open>getTime(b) - getTime(a)\<close>: a stable sort by
  descending midnight.\<close>

definition calculateStreak :: "(int \<Rightarrow> int) \<Rightarrow> int \<Rightarrow> TestAttempt list \<Rightarrow> nat" where
  "calculateStreak midnight now history =
     (if history = [] then 0
      else
        (let dates = map (\<lambda>h. toDateString midnight (completedAt h)) history;
             uniqueDates = sort_key (\<lambda>d. - midnight d) (js_Set dates);
             today = toDateString midnight now;
             yesterday = toDateString midnight (now - 86400000)
         in case uniqueDates of
              [] \<Rightarrow> 0
            | first # rest \<Rightarrow>
                if first = today \<or> first = yesterday
                then streakLoop midnight first rest 1
                else 0))"

text \<open>
  The streak as the specification words it: \<open>k\<close> is the streak of a list of attempt
  days when the \<open>k\<close> days ending today (or, with no attempt today, ending yesterday) all
  have an attempt and the day before them has none; it is 0 when neither today nor
  yesterday has one.
\<close>

definition isRun :: "int list \<Rightarrow> int \<Rightarrow> nat \<Rightarrow> bool" where
  "isRun days e k \<longleftrightarrow> list_all (\<lambda>j. e - int j \<in> set days) [0..<k] \<and> e - int k \<notin> set days"

definition streak_spec :: "int list \<Rightarrow> int \<Rightarrow> nat \<Rightarrow> bool" where
  "streak_spec days today k \<longleftrightarrow>
     (if today \<in> set days then isRun days today k
      else if today - 1 \<in> set days then isRun days (today - 1) k
      else k = 0)"

definition attemptDays :: "(int \<Rightarrow> int) \<Rightarrow> TestAttempt list \<Rightarrow> int list" where
  "attemptDays midnight history = map (\<lambda>h. toDateString midnight (completedAt h)) history"

text \<open>A zone with a constant offset from UTC (local time is UTC plus \<open>off\<close>
  milliseconds), and New York around 8 March 2026, the day on which the clocks went from
  UTC-5 to UTC-4 at 2 a.m. and which therefore lasted 23 hours.\<close>

definition fixedOffset :: "int \<Rightarrow> int \<Rightarrow> int" where
  "fixedOffset off d = d * dayMs - off"

definition newYork2026 :: "int \<Rightarrow> int" where
  "newYork2026 d = d * dayMs + (if d \<le> 20520 then 18000000 else 14400000)"

definition attemptAt :: "int \<Rightarrow> TestAttempt" where
  "attemptAt t =
     \<lparr>testId = ''test_1'', testName = ''Example'', userAnswersA = (\<lambda>i. None), timeTaken = 60,
      timePerQuestionA = (\<lambda>i. None), completedAt = t, score = 0, totalQuestions = 2,
      correctAnswers = 0, incorrectAnswers = 0, unanswered = 2, fullTest = exampleTest 2 0.66\<rparr>"

definition sundayNoon :: int where
  "sundayNoon = 1772985600000"

definition mondayNoon :: int where
  "mondayNoon = 1773072000000"

definition mondayEvening :: int where
  "mondayEvening = 1773093600000"

section \<open>Properties of the attempt engine\<close>

lemmas engine_defs =
  startTest_def renderQuestionForAttempt_def startTimer_def setInterval_def clearIfRunning_def
  clearInterval_def stopTimer_def navigateToQuestion_def saveCurrentAnswer_def addTimeSpent_def
  markReview_def renderedOptions_def paletteButtons_def handleSubmitTest_def makeAttempt_def
  scorePercentage_def or_default_def defaultMarks_def defaultNegative_def initialState_def
  exampleTest_def exampleQuestion_def Let_def

lemma saveCurrentAnswer_inv: "attempt_inv t s \<Longrightarrow> attempt_inv t (saveCurrentAnswer s)"
  by (simp add: attempt_inv_def saveCurrentAnswer_def Let_def)

lemma addTimeSpent_inv: "attempt_inv t s \<Longrightarrow> attempt_inv t (addTimeSpent now s)"
  by (simp add: attempt_inv_def addTimeSpent_def Let_def)

lemma render_inv:
  "attempt_inv t s \<Longrightarrow> \<exists>s'. renderQuestionForAttempt b s = Some s' \<and> attempt_inv t s'"
  by (simp add: attempt_inv_def renderQuestionForAttempt_def Let_def)

lemma navigate_inv:
  assumes "attempt_inv t s"
  shows "\<exists>s'. navigateToQuestion b now j s = Some s' \<and> attempt_inv t s'"
proof -
  let ?s1 = "saveCurrentAnswer (addTimeSpent now s)"
  have i1: "attempt_inv t ?s1" using assms by (simp add: saveCurrentAnswer_inv addTimeSpent_inv)
  have ct: "currentTest s = Some t" using assms by (simp add: attempt_inv_def)
  show ?thesis
  proof (cases "j \<ge> int (length (questions t)) \<or> j < 0")
    case True
    then show ?thesis using i1 ct
      by (auto simp: navigateToQuestion_def Let_def attempt_inv_def)
  next
    case False
    let ?s2 = "?s1\<lparr>currentQuestionIndex := nat j, questionStartTime := now\<rparr>"
    let ?s3 = "(if questionStatuses ?s2 (nat j) = Some notVisited
                        then ?s2\<lparr>questionStatuses := (questionStatuses ?s2)(nat j \<mapsto> notAnswered)\<rparr>
                        else ?s2)"
    have "attempt_inv t ?s3" using i1 False by (auto simp: attempt_inv_def)
    from render_inv[OF this, of b] show ?thesis using ct False
      by (simp add: navigateToQuestion_def Let_def)
  qed
qed

lemma markReview_inv:
  assumes "attempt_inv t s"
  shows "\<exists>s'. markReview b now s = Some s' \<and> attempt_inv t s'"
proof -
  have "attempt_inv t (s\<lparr>questionStatuses := f\<rparr>)" for f
    using assms by (simp add: attempt_inv_def)
  then show ?thesis
    unfolding markReview_def Let_def by (simp add: navigate_inv)
qed

lemma step_inv:
  assumes "attempt_inv t s"
  shows "\<exists>s'. step b s e = Some s' \<and> attempt_inv t s'"
proof (cases e)
  case (Pair now a)
  show ?thesis
  proof (cases a)
    case (Select k)
    then show ?thesis using assms Pair by (simp add: attempt_inv_def)
  next
    case Clear
    then show ?thesis using assms Pair by (simp add: attempt_inv_def)
  next
    case SaveNext
    then show ?thesis using assms Pair by (simp add: navigate_inv)
  next
    case Prev
    then show ?thesis using assms Pair by (simp add: navigate_inv)
  next
    case (Palette j)
    then show ?thesis using assms Pair by (simp add: navigate_inv)
  next
    case MarkReview
    then show ?thesis using assms Pair by (simp add: markReview_inv)
  qed
qed

lemma run_inv:
  "attempt_inv t s \<Longrightarrow> \<exists>s'. run b s es = Some s' \<and> attempt_inv t s'"
proof (induction es arbitrary: s)
  case Nil
  then show ?case by simp
next
  case (Cons e es)
  from step_inv[OF Cons.prems, of b e] obtain s1 where
    s1: "step b s e = Some s1" "attempt_inv t s1" by blast
  from Cons.IH[OF s1(2)] s1(1) show ?case by simp
qed

lemma startTimer_fields:
  "currentTest (startTimer s) = currentTest s"
  "currentQuestionIndex (startTimer s) = currentQuestionIndex s"
  "userAnswers (startTimer s) = userAnswers s"
  by (simp_all add: startTimer_def setInterval_def clearIfRunning_def clearInterval_def
        split: option.splits prod.splits)

lemma startTest_inv:
  assumes "startTest b now test s0 = Some s1"
  shows "attempt_inv test s1"
  using assms
  by (auto simp: startTest_def Let_def renderQuestionForAttempt_def attempt_inv_def startTimer_fields
      split: option.splits if_splits)

lemma tally_filter:
  "tally ua qs i (c, w, u) =
     (c + length (filter (\<lambda>j. ua (i + j) = Some (Some (answer (qs ! j)))) [0..<length qs]),
      w + length (filter (\<lambda>j. ua (i + j) \<noteq> Some None \<and> ua (i + j) \<noteq> Some (Some (answer (qs ! j)))) [0..<length qs]),
      u + length (filter (\<lambda>j. ua (i + j) = Some None) [0..<length qs]))"
proof (induction qs arbitrary: i c w u)
  case Nil
  then show ?case by simp
next
  case (Cons q qs)
  have upt: "[0..<length (q # qs)] = 0 # map Suc [0..<length qs]"
    by (simp add: upt_conv_Cons map_Suc_upt del: upt_Suc)
  show ?case
    unfolding upt by (simp add: Cons.IH filter_map comp_def)
qed

lemma tally_total:
  "tally ua qs i (c, w, u) = (c', w', u') \<Longrightarrow> c' + w' + u' = c + w + u + length qs"
proof (induction qs arbitrary: i c w u)
  case Nil
  then show ?case by simp
next
  case (Cons q qs)
  then show ?case by (auto split: if_splits)
qed

lemma stopTimer_fields:
  "currentTest (stopTimer s) = currentTest s"
  "currentQuestionIndex (stopTimer s) = currentQuestionIndex s"
  "userAnswers (stopTimer s) = userAnswers s"
  "questionStatuses (stopTimer s) = questionStatuses s"
  "checkedOption (stopTimer s) = checkedOption s"
  "performanceHistory (stopTimer s) = performanceHistory s"
  "notices (stopTimer s) = notices s"
  "timeRemaining (stopTimer s) = timeRemaining s"
  "timePerQuestion (stopTimer s) = timePerQuestion s"
  "questionStartTime (stopTimer s) = questionStartTime s"
  by (simp_all add: stopTimer_def clearIfRunning_def clearInterval_def split: option.splits)

lemma stopTimer_inv: "attempt_inv t s \<Longrightarrow> attempt_inv t (stopTimer s)"
  by (simp add: attempt_inv_def stopTimer_fields)

lemma commit_fields:
  "performanceHistory (saveCurrentAnswer (addTimeSpent now s)) = performanceHistory s"
  "currentTest (saveCurrentAnswer (addTimeSpent now s)) = currentTest s"
  "notices (saveCurrentAnswer (addTimeSpent now s)) = notices s"
  "activeIntervals (saveCurrentAnswer (addTimeSpent now s)) = activeIntervals s"
  "timerInterval (saveCurrentAnswer (addTimeSpent now s)) = timerInterval s"
  "nextHandle (saveCurrentAnswer (addTimeSpent now s)) = nextHandle s"
  "timeRemaining (saveCurrentAnswer (addTimeSpent now s)) = timeRemaining s"
  by (simp_all add: saveCurrentAnswer_def addTimeSpent_def Let_def)

lemma makeAttempt_fields:
  "totalQuestions (makeAttempt b now t s) = length (questions t)"
  "userAnswersA (makeAttempt b now t s) = userAnswers s"
  "correctAnswers (makeAttempt b now t s) =
     length (filter (\<lambda>i. userAnswers s i = Some (Some (answer (questions t ! i)))) [0..<length (questions t)])"
  "incorrectAnswers (makeAttempt b now t s) =
     length (filter (\<lambda>i. userAnswers s i \<noteq> Some None \<and> userAnswers s i \<noteq> Some (Some (answer (questions t ! i))))
        [0..<length (questions t)])"
  "unanswered (makeAttempt b now t s) =
     length (filter (\<lambda>i. userAnswers s i = Some None) [0..<length (questions t)])"
  "score (makeAttempt b now t s) =
     scorePercentage b t (correctAnswers (makeAttempt b now t s)) (incorrectAnswers (makeAttempt b now t s))"
  "completedAt (makeAttempt b now t s) = now"
  "fullTest (makeAttempt b now t s) = t"
  by (simp_all add: makeAttempt_def tally_filter)

lemma makeAttempt_total:
  "correctAnswers (makeAttempt b now t s) + incorrectAnswers (makeAttempt b now t s)
     + unanswered (makeAttempt b now t s) = length (questions t)"
proof -
  obtain c w u where tl: "tally (userAnswers s) (questions t) 0 (0, 0, 0) = (c, w, u)"
    by (cases "tally (userAnswers s) (questions t) 0 (0, 0, 0)") auto
  from tally_total[OF tl] tl show ?thesis by (simp add: makeAttempt_def)
qed

lemma handleSubmitTest_loaded:
  assumes "currentTest s = Some t"
  shows "handleSubmitTest b now s =
     (let s1 = saveCurrentAnswer (addTimeSpent now (stopTimer s)) in
      s1\<lparr>performanceHistory := makeAttempt b now t s1 # performanceHistory s,
         currentTest := None,
         notices := (if b = Index_tsx then notices s @ [Submitted] else notices s)\<rparr>)"
  using assms by (simp add: handleSubmitTest_def Let_def commit_fields stopTimer_fields)

lemma incorrect_filter_inv:
  assumes "attempt_inv t s"
  shows "filter (\<lambda>i. userAnswers s i \<noteq> Some None \<and> userAnswers s i \<noteq> Some (Some (answer (questions t ! i))))
           [0..<length (questions t)]
       = filter (\<lambda>i. \<exists>k. userAnswers s i = Some (Some k) \<and> k \<noteq> answer (questions t ! i))
           [0..<length (questions t)]"
proof (rule filter_cong[OF refl])
  fix i assume "i \<in> set [0..<length (questions t)]"
  then have "userAnswers s i \<noteq> None" using assms by (simp add: attempt_inv_def)
  then show "(userAnswers s i \<noteq> Some None \<and> userAnswers s i \<noteq> Some (Some (answer (questions t ! i))))
     = (\<exists>k. userAnswers s i = Some (Some k) \<and> k \<noteq> answer (questions t ! i))"
    by (cases "userAnswers s i") auto
qed

text \<open>
  Claim C2. For every test and every sequence of navigate, answer, clear and mark actions
  of an attempt on it, the sequence runs through without an error, and the counts computed
  at submission add up to the number of questions: every question index is counted exactly
  once, as unanswered (the stored answer is null), as correct (it equals the stored correct
  index) or as incorrect (an answer exists and differs).
\<close>

theorem submission_counts_partition:
  assumes "startTest b t0 test s0 = Some s1"
  shows "\<exists>s a. run b s1 acts = Some s \<and>
           performanceHistory (handleSubmitTest b now s) = a # performanceHistory s \<and>
           totalQuestions a = length (questions test) \<and>
           correctAnswers a + incorrectAnswers a + unanswered a = length (questions test) \<and>
           unanswered a =
             length (filter (\<lambda>i. userAnswersA a i = Some None) [0..<length (questions test)]) \<and>
           correctAnswers a =
             length (filter (\<lambda>i. userAnswersA a i = Some (Some (answer (questions test ! i))))
                       [0..<length (questions test)]) \<and>
           incorrectAnswers a =
             length (filter (\<lambda>i. \<exists>k. userAnswersA a i = Some (Some k) \<and> k \<noteq> answer (questions test ! i))
                       [0..<length (questions test)])"
proof -
  from run_inv[OF startTest_inv[OF assms], of b acts] obtain s where
    s: "run b s1 acts = Some s" "attempt_inv test s" by blast
  let ?s1 = "saveCurrentAnswer (addTimeSpent now (stopTimer s))"
  let ?a = "makeAttempt b now test ?s1"
  have inv1: "attempt_inv test ?s1"
    using s(2) by (simp add: saveCurrentAnswer_inv addTimeSpent_inv stopTimer_inv)
  have ct: "currentTest s = Some test" using s(2) by (simp add: attempt_inv_def)
  have h: "performanceHistory (handleSubmitTest b now s) = ?a # performanceHistory s"
    by (simp add: handleSubmitTest_loaded[OF ct] Let_def)
  have w: "incorrectAnswers ?a =
             length (filter (\<lambda>i. \<exists>k. userAnswersA ?a i = Some (Some k) \<and> k \<noteq> answer (questions test ! i))
                       [0..<length (questions test)])"
    by (simp only: makeAttempt_fields incorrect_filter_inv[OF inv1])
  show ?thesis
    using s(1) h w makeAttempt_total[of b now test ?s1]
    by (intro exI[of _ s] exI[of _ ?a]) (simp add: makeAttempt_fields)
qed

theorem submission_counts_partition_witness:
  "\<exists>s1 s a. startTest Index_tsx 0 (exampleTest 2 0.66) initialState = Some s1 \<and>
      run Index_tsx s1 oneRightOneWrong = Some s \<and>
      performanceHistory (handleSubmitTest Index_tsx 4000 s) = a # performanceHistory s \<and>
      correctAnswers a + incorrectAnswers a + unanswered a = 2"
proof -
  obtain s1 where st: "startTest Index_tsx 0 (exampleTest 2 0.66) initialState = Some s1"
    by (simp add: engine_defs)
  have n: "length (questions (exampleTest 2 0.66)) = 2" by (simp add: exampleTest_def)
  from submission_counts_partition[OF st, of oneRightOneWrong 4000] st n
  show ?thesis by auto
qed

lemma saveCurrentAnswer_marked:
  "isMarked (questionStatuses s i) \<Longrightarrow> isMarked (questionStatuses (saveCurrentAnswer s) i)"
  by (auto simp: isMarked_def saveCurrentAnswer_def Let_def)

lemma addTimeSpent_statuses: "questionStatuses (addTimeSpent now s) = questionStatuses s"
  by (simp add: addTimeSpent_def Let_def)

lemma render_statuses:
  "renderQuestionForAttempt b s = Some s' \<Longrightarrow> questionStatuses s' = questionStatuses s"
  by (auto simp: renderQuestionForAttempt_def Let_def split: option.splits if_splits)

lemma navigate_marked:
  assumes "navigateToQuestion b now j s = Some s'" and "isMarked (questionStatuses s i)"
  shows "isMarked (questionStatuses s' i)"
proof (cases "currentTest s")
  case None
  then show ?thesis using assms by (auto simp: navigateToQuestion_def split: if_splits)
next
  case (Some t)
  let ?s1 = "saveCurrentAnswer (addTimeSpent now s)"
  have m1: "isMarked (questionStatuses ?s1 i)"
    using assms(2) by (simp add: saveCurrentAnswer_marked addTimeSpent_statuses)
  show ?thesis
  proof (cases "j \<ge> int (length (questions t)) \<or> j < 0")
    case True
    then show ?thesis using assms(1) Some m1
      by (auto simp: navigateToQuestion_def Let_def split: if_splits)
  next
    case False
    let ?s2 = "?s1\<lparr>currentQuestionIndex := nat j, questionStartTime := now\<rparr>"
    let ?s3 = "(if questionStatuses ?s2 (nat j) = Some notVisited
                then ?s2\<lparr>questionStatuses := (questionStatuses ?s2)(nat j \<mapsto> notAnswered)\<rparr>
                else ?s2)"
    have r: "renderQuestionForAttempt b ?s3 = Some s'"
      using assms(1) Some False by (simp add: navigateToQuestion_def Let_def)
    have "isMarked (questionStatuses ?s3 i)"
      using m1 by (auto simp: isMarked_def)
    then show ?thesis using render_statuses[OF r] by simp
  qed
qed

lemma markReview_marked:
  assumes "markReview b now s = Some s'" and "isMarked (questionStatuses s i)"
  shows "isMarked (questionStatuses s' i)"
proof -
  let ?i = "currentQuestionIndex s"
  let ?s1 = "(if questionStatuses s ?i = Some answered \<or> questionStatuses s ?i = Some markedAndAnswered
                then s\<lparr>questionStatuses := (questionStatuses s)(?i \<mapsto> markedAndAnswered)\<rparr>
                else s\<lparr>questionStatuses := (questionStatuses s)(?i \<mapsto> marked)\<rparr>)"
  have n: "navigateToQuestion b now (int ?i + 1) ?s1 = Some s'"
    using assms(1) by (simp add: markReview_def Let_def)
  have "isMarked (questionStatuses ?s1 i)"
    using assms(2) by (auto simp: isMarked_def)
  from navigate_marked[OF n this] show ?thesis .
qed

lemma step_marked:
  assumes "step b s e = Some s'" and "isMarked (questionStatuses s i)"
  shows "isMarked (questionStatuses s' i)"
proof (cases e)
  case (Pair now a)
  show ?thesis
  proof (cases a)
    case (Select k)
    then show ?thesis using assms Pair by (auto split: if_splits)
  next
    case Clear
    then show ?thesis using assms Pair by auto
  next
    case SaveNext
    then show ?thesis using assms Pair by (auto dest: navigate_marked)
  next
    case Prev
    then show ?thesis using assms Pair by (auto dest: navigate_marked split: if_splits)
  next
    case (Palette j)
    then show ?thesis using assms Pair by (auto dest: navigate_marked split: if_splits)
  next
    case MarkReview
    then show ?thesis using assms Pair by (auto dest: markReview_marked)
  qed
qed

lemma run_marked:
  "run b s es = Some s' \<Longrightarrow> isMarked (questionStatuses s i) \<Longrightarrow> isMarked (questionStatuses s' i)"
proof (induction es arbitrary: s)
  case Nil
  then show ?case by simp
next
  case (Cons e es)
  then obtain s1 where s1: "step b s e = Some s1" "run b s1 es = Some s'"
    by (auto split: option.splits)
  from Cons.IH[OF s1(2) step_marked[OF s1(1) Cons.prems(2)]] show ?case .
qed

lemma handleSubmitTest_statuses:
  "questionStatuses (handleSubmitTest b now s)
     = questionStatuses (saveCurrentAnswer (addTimeSpent now (stopTimer s)))"
  by (simp add: handleSubmitTest_def Let_def split: option.splits)

lemma handleSubmitTest_marked:
  "isMarked (questionStatuses s i) \<Longrightarrow> isMarked (questionStatuses (handleSubmitTest b now s) i)"
  by (simp add: handleSubmitTest_statuses saveCurrentAnswer_marked addTimeSpent_statuses
        stopTimer_fields)

lemma startTimer_statuses: "questionStatuses (startTimer s) = questionStatuses s"
  by (simp add: startTimer_def setInterval_def clearIfRunning_def clearInterval_def
        split: option.splits prod.splits)

lemma startTest_unmarked:
  assumes "startTest b now t s = Some s1"
  shows "\<not> isMarked (questionStatuses s1 i)"
proof -
  let ?n = "length (questions t)"
  let ?s0 = "s\<lparr>currentTest := Some t,
                 currentQuestionIndex := 0,
                 userAnswers := (\<lambda>i. if i < ?n then Some None else None),
                 questionStatuses := (\<lambda>i. if i < ?n then Some notVisited else None)(0 \<mapsto> notAnswered),
                 timeRemaining := duration t * 60,
                 timePerQuestion := (\<lambda>i. if i < ?n then Some (Num 0) else None),
                 questionStartTime := now\<rparr>"
  from assms obtain s2 where r: "renderQuestionForAttempt b ?s0 = Some s2"
    and s1: "s1 = startTimer s2"
    by (auto simp: startTest_def Let_def split: option.splits)
  have "questionStatuses s1 = questionStatuses ?s0"
    unfolding s1 startTimer_statuses by (rule render_statuses[OF r])
  then show ?thesis by (simp add: isMarked_def)
qed

text \<open>
  Claim C9. Once a question's status is \<open>marked\<close> or \<open>markedAndAnswered\<close>, no
  sequence of select, clear, save, previous, palette and mark actions, and no commit at
  submission, returns it to \<open>notAnswered\<close> or \<open>answered\<close>; committing a cleared
  selection on a \<open>markedAndAnswered\<close> question leaves the status and stores null.
  Starting an attempt leaves no question marked.
\<close>

theorem marked_status_is_sticky:
  "(run b s acts = Some s' \<longrightarrow> isMarked (questionStatuses s i) \<longrightarrow>
      isMarked (questionStatuses s' i) \<and>
      questionStatuses s' i \<noteq> Some notAnswered \<and> questionStatuses s' i \<noteq> Some answered \<and>
      isMarked (questionStatuses (handleSubmitTest b now s') i)) \<and>
   (checkedOption s = None \<longrightarrow>
      questionStatuses s (currentQuestionIndex s) = Some markedAndAnswered \<longrightarrow>
      questionStatuses (saveCurrentAnswer s) (currentQuestionIndex s) = Some markedAndAnswered \<and>
      userAnswers (saveCurrentAnswer s) (currentQuestionIndex s) = Some None) \<and>
   (startTest b now t s = Some s1 \<longrightarrow> \<not> isMarked (questionStatuses s1 i))"
proof (intro conjI impI)
  assume r: "run b s acts = Some s'" and m: "isMarked (questionStatuses s i)"
  from run_marked[OF r m] show m': "isMarked (questionStatuses s' i)" .
  from m' show "questionStatuses s' i \<noteq> Some notAnswered" by (auto simp: isMarked_def)
  from m' show "questionStatuses s' i \<noteq> Some answered" by (auto simp: isMarked_def)
  from m' show "isMarked (questionStatuses (handleSubmitTest b now s') i)"
    by (rule handleSubmitTest_marked)
next
  assume "checkedOption s = None"
    and "questionStatuses s (currentQuestionIndex s) = Some markedAndAnswered"
  then show "questionStatuses (saveCurrentAnswer s) (currentQuestionIndex s) = Some markedAndAnswered"
    and "userAnswers (saveCurrentAnswer s) (currentQuestionIndex s) = Some None"
    by (simp_all add: saveCurrentAnswer_def Let_def)
next
  assume "startTest b now t s = Some s1"
  then show "\<not> isMarked (questionStatuses s1 i)"
    by (rule startTest_unmarked)
qed

theorem marked_status_is_sticky_witness:
  "isMarked (questionStatuses markedState 0) \<and> checkedOption markedState = None \<and>
   questionStatuses markedState (currentQuestionIndex markedState) = Some markedAndAnswered \<and>
   (\<exists>s'. run Index_tsx markedState [(5000, SaveNext), (6000, Palette 0), (7000, Select 2), (8000, MarkReview)]
            = Some s' \<and> isMarked (questionStatuses s' 0)) \<and>
   questionStatuses (saveCurrentAnswer markedState) 0 = Some markedAndAnswered \<and>
   userAnswers (saveCurrentAnswer markedState) 0 = Some None"
proof -
  let ?acts = "[(5000, SaveNext), (6000, Palette 0), (7000, Select 2), (8000, MarkReview)]"
  have m: "isMarked (questionStatuses markedState 0)"
    by (simp add: markedState_def initialState_def isMarked_def)
  have c: "checkedOption markedState = None"
    by (simp add: markedState_def initialState_def)
  have i: "currentQuestionIndex markedState = 0"
    by (simp add: markedState_def initialState_def)
  have q: "questionStatuses markedState (currentQuestionIndex markedState) = Some markedAndAnswered"
    by (simp add: markedState_def initialState_def)
  obtain s' where r: "run Index_tsx markedState ?acts = Some s'"
    by (simp add: markedState_def engine_defs)
  from marked_status_is_sticky[where b = Index_tsx and s = markedState and acts = ?acts
      and s' = s' and i = 0 and now = 9000] r m c q i
  show ?thesis by auto
qed

lemma scorePercentage_nonneg: "0 \<le> scorePercentage b t c w"
  by (simp add: scorePercentage_def Let_def)

lemma scorePercentage_spelled:
  "scorePercentage b t c w =
     (let M = (if marksPerQuestion t = 0 then (case b of Index_tsx \<Rightarrow> 2 | Part_000 \<Rightarrow> 1)
               else marksPerQuestion t);
          P = (if negativeMarking t = 0 then (case b of Index_tsx \<Rightarrow> 0.66 | Part_000 \<Rightarrow> 0)
               else negativeMarking t);
          total = real (length (questions t)) * M
      in if 0 < total then max 0 ((real c * M - real w * P) / total * 100) else 0)"
  by (simp add: scorePercentage_def or_default_def defaultMarks_def defaultNegative_def Let_def)

lemma scorePercentage_claimed:
  assumes "0 < marksPerQuestion t" and "negativeMarking t \<noteq> 0 \<or> b = Part_000" and "questions t \<noteq> []"
  shows "scorePercentage b t c w = claimed_score t c w"
proof -
  have "0 < real (length (questions t)) * marksPerQuestion t"
    using assms(1,3) by simp
  moreover have "or_default (negativeMarking t) (defaultNegative b) = negativeMarking t"
    using assms(2) by (auto simp: or_default_def defaultNegative_def)
  moreover have "or_default (marksPerQuestion t) (defaultMarks b) = marksPerQuestion t"
    using assms(1) by (simp add: or_default_def)
  ultimately show ?thesis
    by (simp add: scorePercentage_def claimed_score_def Let_def)
qed

text \<open>
  Claim C1, as amended. The recorded score is \<open>max 0 ((correct * M - incorrect * P) /
  (total * M) * 100)\<close> when \<open>total * M\<close> is positive and 0 otherwise, where \<open>M\<close> is the
  test's marks per question, or the build's default (2, or 1 in \<^verbatim>\<open>part_000\<close>) when
  that field is zero, and \<open>P\<close> is its negative marking, or the default (0.66, or 0) when
  that field is zero. So the formula of the specification holds for every test with a
  question, positive marks per question and a non-zero negative marking. In the example of
  the specification the attempt records 1 correct, 1 incorrect, 0 unanswered and 33.5.
\<close>

theorem recorded_score:
  "(currentTest s = Some t \<longrightarrow>
      (\<exists>a. performanceHistory (handleSubmitTest b now s) = a # performanceHistory s \<and>
           fullTest a = t \<and> totalQuestions a = length (questions t) \<and> 0 \<le> score a \<and>
           score a =
             (let M = (if marksPerQuestion t = 0 then (case b of Index_tsx \<Rightarrow> 2 | Part_000 \<Rightarrow> 1)
                       else marksPerQuestion t);
                  P = (if negativeMarking t = 0 then (case b of Index_tsx \<Rightarrow> 0.66 | Part_000 \<Rightarrow> 0)
                       else negativeMarking t);
                  total = real (totalQuestions a) * M
              in if 0 < total
                 then max 0 ((real (correctAnswers a) * M - real (incorrectAnswers a) * P) / total * 100)
                 else 0) \<and>
           (0 < marksPerQuestion t \<and> (negativeMarking t \<noteq> 0 \<or> b = Part_000) \<and> questions t \<noteq> []
              \<longrightarrow> score_as_claimed a))) \<and>
   (\<exists>a. attemptOf b (exampleTest 2 0.66) oneRightOneWrong 4000 = Some a \<and>
        correctAnswers a = 1 \<and> incorrectAnswers a = 1 \<and> unanswered a = 0 \<and> score a = 33.5)"
proof (intro conjI impI)
  assume ct: "currentTest s = Some t"
  let ?s1 = "saveCurrentAnswer (addTimeSpent now (stopTimer s))"
  let ?a = "makeAttempt b now t ?s1"
  have h: "performanceHistory (handleSubmitTest b now s) = ?a # performanceHistory s"
    by (simp add: handleSubmitTest_loaded[OF ct] Let_def)
  have sc: "score ?a = scorePercentage b t (correctAnswers ?a) (incorrectAnswers ?a)"
    by (rule makeAttempt_fields)
  have f: "fullTest ?a = t" "totalQuestions ?a = length (questions t)"
    by (rule makeAttempt_fields)+
  have c: "0 < marksPerQuestion t \<and> (negativeMarking t \<noteq> 0 \<or> b = Part_000) \<and> questions t \<noteq> []
              \<longrightarrow> score_as_claimed ?a"
    unfolding score_as_claimed_def sc f by (simp add: scorePercentage_claimed)
  have g: "score ?a =
             (let M = (if marksPerQuestion t = 0 then (case b of Index_tsx \<Rightarrow> 2 | Part_000 \<Rightarrow> 1)
                       else marksPerQuestion t);
                  P = (if negativeMarking t = 0 then (case b of Index_tsx \<Rightarrow> 0.66 | Part_000 \<Rightarrow> 0)
                       else negativeMarking t);
                  total = real (totalQuestions ?a) * M
              in if 0 < total
                 then max 0 ((real (correctAnswers ?a) * M - real (incorrectAnswers ?a) * P) / total * 100)
                 else 0)"
    unfolding f sc by (rule scorePercentage_spelled)
  have n: "0 \<le> score ?a" unfolding sc by (rule scorePercentage_nonneg)
  show "\<exists>a. performanceHistory (handleSubmitTest b now s) = a # performanceHistory s \<and>
           fullTest a = t \<and> totalQuestions a = length (questions t) \<and> 0 \<le> score a \<and>
           score a =
             (let M = (if marksPerQuestion t = 0 then (case b of Index_tsx \<Rightarrow> 2 | Part_000 \<Rightarrow> 1)
                       else marksPerQuestion t);
                  P = (if negativeMarking t = 0 then (case b of Index_tsx \<Rightarrow> 0.66 | Part_000 \<Rightarrow> 0)
                       else negativeMarking t);
                  total = real (totalQuestions a) * M
              in if 0 < total
                 then max 0 ((real (correctAnswers a) * M - real (incorrectAnswers a) * P) / total * 100)
                 else 0) \<and>
           (0 < marksPerQuestion t \<and> (negativeMarking t \<noteq> 0 \<or> b = Part_000) \<and> questions t \<noteq> []
              \<longrightarrow> score_as_claimed a)"
    using h f n g c by (intro exI[of _ ?a] conjI)
next
  show "\<exists>a. attemptOf b (exampleTest 2 0.66) oneRightOneWrong 4000 = Some a \<and>
        correctAnswers a = 1 \<and> incorrectAnswers a = 1 \<and> unanswered a = 0 \<and> score a = 33.5"
    by (cases b) (simp_all add: attemptOf_def oneRightOneWrong_def engine_defs)
qed

theorem recorded_score_witness:
  "currentTest freshState = Some (exampleTest 2 0.66) \<and>
   (\<exists>a. performanceHistory (handleSubmitTest Index_tsx 9000 freshState) = [a] \<and>
        score_as_claimed a)"
proof -
  have ct: "currentTest freshState = Some (exampleTest 2 0.66)"
    by (simp add: freshState_def initialState_def)
  have h: "performanceHistory freshState = []"
    by (simp add: freshState_def initialState_def)
  have p: "0 < marksPerQuestion (exampleTest 2 0.66)" "negativeMarking (exampleTest 2 0.66) \<noteq> 0"
    "questions (exampleTest 2 0.66) \<noteq> []"
    by (simp_all add: exampleTest_def)
  from recorded_score[of freshState "exampleTest 2 0.66" Index_tsx 9000] ct h p
  show ?thesis by auto
qed

text \<open>
  The claim C1 as stated fails in \<^verbatim>\<open>index.tsx\<close> on a test whose negative marking is 0:
  with one right and one wrong answer out of two the formula gives 50, the code records
  33.5, since \<^verbatim>\<open>negativeMarking || 0.66\<close> replaces the zero.
\<close>

theorem recorded_score_counterexample:
  "map_option score_as_claimed (attemptOf Index_tsx (exampleTest 2 0) oneRightOneWrong 4000)
     = Some False"
  by (simp add: attemptOf_def oneRightOneWrong_def engine_defs score_as_claimed_def claimed_score_def)

lemma accuracy_value:
  "accuracy a =
     Some (if correctAnswers a + incorrectAnswers a = 0 then 0
           else real (correctAnswers a) / real (correctAnswers a + incorrectAnswers a) * 100)"
  by (simp add: accuracy_def Let_def js_divide_def)

lemma all_null_counts:
  assumes "\<forall>i < length (questions t). userAnswers s i = Some None"
  shows "correctAnswers (makeAttempt b now t s) = 0"
    and "incorrectAnswers (makeAttempt b now t s) = 0"
    and "unanswered (makeAttempt b now t s) = length (questions t)"
proof -
  have "filter (\<lambda>i. userAnswers s i = Some (Some (answer (questions t ! i)))) [0..<length (questions t)] = []"
    using assms by (simp add: filter_empty_conv)
  then show "correctAnswers (makeAttempt b now t s) = 0" by (simp add: makeAttempt_fields)
  have "filter (\<lambda>i. userAnswers s i \<noteq> Some None \<and> userAnswers s i \<noteq> Some (Some (answer (questions t ! i))))
          [0..<length (questions t)] = []"
    using assms by (simp add: filter_empty_conv)
  then show "incorrectAnswers (makeAttempt b now t s) = 0" by (simp add: makeAttempt_fields)
  have "filter (\<lambda>i. userAnswers s i = Some None) [0..<length (questions t)] = [0..<length (questions t)]"
    using assms by (simp add: filter_id_conv)
  then show "unanswered (makeAttempt b now t s) = length (questions t)" by (simp add: makeAttempt_fields)
qed

text \<open>
  Claim C7. The accuracy of the report is \<open>correct / (correct + incorrect) * 100\<close>, and 0
  when nothing was attempted; it is always a number. An attempt submitted with every
  answer null records as many unanswered as questions, accuracy 0 and score 0.
\<close>

theorem accuracy_guarded:
  "accuracy a =
     Some (if correctAnswers a + incorrectAnswers a = 0 then 0
           else real (correctAnswers a) / real (correctAnswers a + incorrectAnswers a) * 100) \<and>
   (currentTest s = Some t \<longrightarrow> checkedOption s = None \<longrightarrow>
    (\<forall>i < length (questions t). userAnswers s i = Some None) \<longrightarrow>
      (\<exists>r. performanceHistory (handleSubmitTest b now s) = r # performanceHistory s \<and>
           unanswered r = length (questions t) \<and> accuracy r = Some 0 \<and> score r = 0))"
proof (intro conjI impI)
  show "accuracy a =
     Some (if correctAnswers a + incorrectAnswers a = 0 then 0
           else real (correctAnswers a) / real (correctAnswers a + incorrectAnswers a) * 100)"
    by (rule accuracy_value)
next
  assume ct: "currentTest s = Some t" and co: "checkedOption s = None"
    and al: "\<forall>i < length (questions t). userAnswers s i = Some None"
  let ?s1 = "saveCurrentAnswer (addTimeSpent now (stopTimer s))"
  let ?r = "makeAttempt b now t ?s1"
  have "userAnswers ?s1 = (userAnswers s)(currentQuestionIndex s \<mapsto> None)"
    using co by (simp add: saveCurrentAnswer_def addTimeSpent_def Let_def stopTimer_fields)
  then have al1: "\<forall>i < length (questions t). userAnswers ?s1 i = Some None"
    using al by simp
  note cnt = all_null_counts[OF al1, of b now]
  have h: "performanceHistory (handleSubmitTest b now s) = ?r # performanceHistory s"
    by (simp add: handleSubmitTest_loaded[OF ct] Let_def)
  have acc: "accuracy ?r = Some 0" by (simp add: accuracy_value cnt)
  have "score ?r = scorePercentage b t 0 0"
    using makeAttempt_fields(6)[of b now t ?s1] by (simp add: cnt)
  then have sc: "score ?r = 0" by (simp add: scorePercentage_def Let_def)
  show "\<exists>r. performanceHistory (handleSubmitTest b now s) = r # performanceHistory s \<and>
           unanswered r = length (questions t) \<and> accuracy r = Some 0 \<and> score r = 0"
    using h cnt(3) acc sc by (intro exI[of _ ?r] conjI)
qed

theorem accuracy_guarded_witness:
  "currentTest freshState = Some (exampleTest 2 0.66) \<and> checkedOption freshState = None \<and>
   length (questions (exampleTest 2 0.66)) = 2 \<and>
   userAnswers freshState 0 = Some None \<and> userAnswers freshState 1 = Some None \<and>
   (\<exists>r. performanceHistory (handleSubmitTest Part_000 9000 freshState) = [r] \<and>
        unanswered r = 2 \<and> accuracy r = Some 0 \<and> score r = 0)"
proof -
  have ct: "currentTest freshState = Some (exampleTest 2 0.66)"
    and co: "checkedOption freshState = None"
    and h: "performanceHistory freshState = []"
    by (simp_all add: freshState_def initialState_def)
  have n: "length (questions (exampleTest 2 0.66)) = 2" by (simp add: exampleTest_def)
  have al: "\<forall>i < length (questions (exampleTest 2 0.66)). userAnswers freshState i = Some None"
    by (simp add: freshState_def initialState_def exampleTest_def)
  have "\<exists>r. performanceHistory (handleSubmitTest Part_000 9000 freshState)
              = r # performanceHistory freshState \<and>
            unanswered r = length (questions (exampleTest 2 0.66)) \<and>
            accuracy r = Some 0 \<and> score r = 0"
    using accuracy_guarded[where s = freshState and t = "exampleTest 2 0.66"
        and b = Part_000 and now = 9000] ct co al
    by blast
  moreover have "userAnswers freshState 0 = Some None" "userAnswers freshState 1 = Some None"
    by (simp_all add: freshState_def initialState_def)
  ultimately show ?thesis using ct co unfolding h n by blast
qed

text \<open>
  The navigation contract, in both builds: the elapsed time goes to the bucket of the
  question left, the checked option (or null) becomes its answer, the index changes only
  for a target inside the test, and then the stopwatch restarts. At the two limits
  \<^verbatim>\<open>part_000\<close> restarts the stopwatch and \<^verbatim>\<open>index.tsx\<close> does not.
\<close>

lemma navigateToQuestion_contract:
  assumes "currentTest s = Some t"
  shows "\<exists>s'. navigateToQuestion b now j s = Some s' \<and>
           timePerQuestion s' (currentQuestionIndex s) =
             Some (plus_num (timePerQuestion s (currentQuestionIndex s))
                     (real_of_int (now - questionStartTime s) / 1000)) \<and>
           userAnswers s' (currentQuestionIndex s) = Some (checkedOption s) \<and>
           (int (length (questions t)) \<le> j \<longrightarrow> currentQuestionIndex s' = currentQuestionIndex s) \<and>
           (0 \<le> j \<and> j < int (length (questions t)) \<longrightarrow>
              currentQuestionIndex s' = nat j \<and> questionStartTime s' = now) \<and>
           (b = Part_000 \<longrightarrow> questionStartTime s' = now) \<and>
           (b = Index_tsx \<and> (int (length (questions t)) \<le> j \<or> j < 0) \<longrightarrow>
              questionStartTime s' = questionStartTime s)"
  using assms
  by (auto simp: navigateToQuestion_def renderQuestionForAttempt_def saveCurrentAnswer_def
        addTimeSpent_def Let_def)

text \<open>
  Claim C5. In \<^verbatim>\<open>index.tsx\<close> a navigation beyond the last question adds the elapsed
  time to the question's bucket but leaves \<^verbatim>\<open>questionStartTime\<close> as it was, so the
  same seconds are added again by the next commit: a one-question attempt of 20 seconds,
  with Save and Next pressed after 10 seconds, records 30 seconds on its question.
  \<^verbatim>\<open>part_000\<close> resets the stopwatch there and records 20.
\<close>

theorem stopwatch_not_reset_at_limit:
  "map_option (\<lambda>a. timePerQuestionA a 0) (attemptOf Index_tsx oneQuestionTest [(10000, SaveNext)] 20000)
     = Some (Some (Num 30)) \<and>
   map_option (\<lambda>a. timePerQuestionA a 0) (attemptOf Part_000 oneQuestionTest [(10000, SaveNext)] 20000)
     = Some (Some (Num 20))"
  by (simp add: attemptOf_def engine_defs oneQuestionTest_def)

section \<open>Properties of the timer\<close>

lemma stopTimer_stops:
  assumes "timer_inv s"
  shows "activeIntervals (stopTimer s) = []" and "timerInterval (stopTimer s) = None"
    and "nextHandle (stopTimer s) = nextHandle s" and "timer_inv (stopTimer s)"
  using assms
  by (auto simp: timer_inv_def stopTimer_def clearIfRunning_def clearInterval_def
      split: option.splits)

lemma startTimer_replaces:
  assumes "timer_inv s"
  shows "activeIntervals (startTimer s) = [nextHandle s]"
    and "timerInterval (startTimer s) = Some (nextHandle s)"
    and "nextHandle s \<notin> set (activeIntervals s)"
    and "timer_inv (startTimer s)"
  using assms
  by (auto simp: timer_inv_def startTimer_def setInterval_def clearIfRunning_def clearInterval_def
      split: option.splits)

lemma timer_inv_cong:
  assumes "timer_inv s" and "activeIntervals s' = activeIntervals s"
    and "timerInterval s' = timerInterval s" and "nextHandle s' = nextHandle s"
  shows "timer_inv s'"
  using assms by (simp add: timer_inv_def)

lemma handleSubmitTest_timer:
  assumes "timer_inv s"
  shows "activeIntervals (handleSubmitTest b now s) = []"
    and "timerInterval (handleSubmitTest b now s) = None"
proof -
  let ?s1 = "saveCurrentAnswer (addTimeSpent now (stopTimer s))"
  have a: "activeIntervals ?s1 = []" and t: "timerInterval ?s1 = None"
    by (simp_all add: commit_fields stopTimer_stops[OF assms])
  show "activeIntervals (handleSubmitTest b now s) = []"
    using a by (simp add: handleSubmitTest_def Let_def split: option.splits)
  show "timerInterval (handleSubmitTest b now s) = None"
    using t by (simp add: handleSubmitTest_def Let_def split: option.splits)
qed

lemma tick_running:
  assumes "1 < timeRemaining s"
  shows "tick b now s = s\<lparr>timeRemaining := timeRemaining s - 1\<rparr>"
  using assms by (simp add: tick_def Let_def)

lemma tick_expires:
  assumes inv: "timer_inv s" and ct: "currentTest s = Some t" and tr: "timeRemaining s \<le> 1"
  shows "\<exists>a. performanceHistory (tick b now s) = a # performanceHistory s"
    and "count_list (notices (tick b now s)) TimeUp = Suc (count_list (notices s) TimeUp)"
    and "activeIntervals (tick b now s) = []"
    and "timerInterval (tick b now s) = None"
    and "currentTest (tick b now s) = None"
proof -
  let ?s1 = "s\<lparr>timeRemaining := timeRemaining s - 1\<rparr>"
  let ?s2 = "stopTimer ?s1"
  let ?s3 = "?s2\<lparr>notices := notices ?s2 @ [TimeUp]\<rparr>"
  have tk: "tick b now s = handleSubmitTest b now ?s3"
    using tr by (simp add: tick_def Let_def)
  have inv1: "timer_inv ?s1" using inv by (rule timer_inv_cong) simp_all
  have inv3: "timer_inv ?s3"
    using stopTimer_stops(4)[OF inv1] by (rule timer_inv_cong) simp_all
  have ct3: "currentTest ?s3 = Some t" using ct by (simp add: stopTimer_fields)
  have h3: "performanceHistory ?s3 = performanceHistory s" by (simp add: stopTimer_fields)
  have n3: "notices ?s3 = notices s @ [TimeUp]" by (simp add: stopTimer_fields)
  show "\<exists>a. performanceHistory (tick b now s) = a # performanceHistory s"
    unfolding tk handleSubmitTest_loaded[OF ct3] by (simp add: Let_def h3)
  show "count_list (notices (tick b now s)) TimeUp = Suc (count_list (notices s) TimeUp)"
    unfolding tk handleSubmitTest_loaded[OF ct3] by (simp add: Let_def n3)
  show "activeIntervals (tick b now s) = []"
    unfolding tk by (rule handleSubmitTest_timer[OF inv3])
  show "timerInterval (tick b now s) = None"
    unfolding tk by (rule handleSubmitTest_timer[OF inv3])
  show "currentTest (tick b now s) = None"
    unfolding tk handleSubmitTest_loaded[OF ct3] by (simp add: Let_def)
qed

lemma startTest_timer:
  assumes "timer_inv s0" and "startTest b t0 test s0 = Some s1"
  shows "timer_inv s1" and "timerInterval s1 \<noteq> None" and "currentTest s1 = Some test"
    and "timeRemaining s1 = duration test * 60"
    and "performanceHistory s1 = performanceHistory s0" and "notices s1 = notices s0"
proof -
  let ?n = "length (questions test)"
  let ?s1 = "s0\<lparr>currentTest := Some test,
                 currentQuestionIndex := 0,
                 userAnswers := (\<lambda>i. if i < ?n then Some None else None),
                 questionStatuses := (\<lambda>i. if i < ?n then Some notVisited else None)(0 \<mapsto> notAnswered),
                 timeRemaining := duration test * 60,
                 timePerQuestion := (\<lambda>i. if i < ?n then Some (Num 0) else None),
                 questionStartTime := t0\<rparr>"
  from assms(2) obtain s2 where r: "renderQuestionForAttempt b ?s1 = Some s2"
    and s1: "s1 = startTimer s2"
    by (auto simp: startTest_def Let_def split: option.splits)
  from r have s2: "s2 = ?s1\<lparr>checkedOption := checkedOption s2\<rparr>"
    by (auto simp: renderQuestionForAttempt_def Let_def split: if_splits)
  have inv2: "timer_inv s2"
    using assms(1) by (rule timer_inv_cong) (subst s2, simp)+
  show "timer_inv s1" unfolding s1 by (rule startTimer_replaces[OF inv2])
  show "timerInterval s1 \<noteq> None" unfolding s1 by (simp add: startTimer_replaces[OF inv2])
  have f: "currentTest (startTimer s) = currentTest s" "timeRemaining (startTimer s) = timeRemaining s"
    "performanceHistory (startTimer s) = performanceHistory s" "notices (startTimer s) = notices s" for s
    by (simp_all add: startTimer_def setInterval_def clearIfRunning_def clearInterval_def
        split: option.splits prod.splits)
  show "currentTest s1 = Some test" unfolding s1 f by (subst s2) simp
  show "timeRemaining s1 = duration test * 60" unfolding s1 f by (subst s2) simp
  show "performanceHistory s1 = performanceHistory s0" unfolding s1 f by (subst s2) simp
  show "notices s1 = notices s0" unfolding s1 f by (subst s2) simp
qed

lemma no_interval_no_tick:
  "activeIntervals s = [] \<Longrightarrow> intervalFires b now h s = None"
  by (simp add: intervalFires_def)

lemma render_frame:
  assumes "renderQuestionForAttempt b s = Some s'"
  shows "timerInterval s' = timerInterval s \<and> activeIntervals s' = activeIntervals s \<and>
         nextHandle s' = nextHandle s \<and> timeRemaining s' = timeRemaining s \<and>
         performanceHistory s' = performanceHistory s \<and> notices s' = notices s"
  using assms
  by (auto simp: renderQuestionForAttempt_def Let_def split: option.splits if_splits)

lemma navigate_frame:
  assumes "navigateToQuestion b now j s = Some s'"
  shows "timerInterval s' = timerInterval s \<and> activeIntervals s' = activeIntervals s \<and>
         nextHandle s' = nextHandle s \<and> timeRemaining s' = timeRemaining s \<and>
         performanceHistory s' = performanceHistory s \<and> notices s' = notices s"
proof (cases "currentTest s")
  case None
  then show ?thesis using assms by (auto simp: navigateToQuestion_def split: if_splits)
next
  case (Some t)
  let ?s1 = "saveCurrentAnswer (addTimeSpent now s)"
  show ?thesis
  proof (cases "j \<ge> int (length (questions t)) \<or> j < 0")
    case True
    then have "s' = ?s1 \<or> s' = ?s1\<lparr>questionStartTime := now\<rparr>"
      using assms Some by (auto simp: navigateToQuestion_def Let_def split: if_splits)
    then show ?thesis by (auto simp: commit_fields)
  next
    case False
    let ?s2 = "?s1\<lparr>currentQuestionIndex := nat j, questionStartTime := now\<rparr>"
    let ?s3 = "(if questionStatuses ?s2 (nat j) = Some notVisited
                then ?s2\<lparr>questionStatuses := (questionStatuses ?s2)(nat j \<mapsto> notAnswered)\<rparr>
                else ?s2)"
    have r: "renderQuestionForAttempt b ?s3 = Some s'"
      using assms Some False by (simp add: navigateToQuestion_def Let_def)
    have "timerInterval ?s3 = timerInterval s \<and> activeIntervals ?s3 = activeIntervals s \<and>
         nextHandle ?s3 = nextHandle s \<and> timeRemaining ?s3 = timeRemaining s \<and>
         performanceHistory ?s3 = performanceHistory s \<and> notices ?s3 = notices s"
      by (simp add: commit_fields)
    then show ?thesis using render_frame[OF r] by simp
  qed
qed

lemma markReview_frame:
  assumes "markReview b now s = Some s'"
  shows "timerInterval s' = timerInterval s \<and> activeIntervals s' = activeIntervals s \<and>
         nextHandle s' = nextHandle s \<and> timeRemaining s' = timeRemaining s \<and>
         performanceHistory s' = performanceHistory s \<and> notices s' = notices s"
proof -
  let ?i = "currentQuestionIndex s"
  let ?s1 = "(if questionStatuses s ?i = Some answered \<or> questionStatuses s ?i = Some markedAndAnswered
                then s\<lparr>questionStatuses := (questionStatuses s)(?i \<mapsto> markedAndAnswered)\<rparr>
                else s\<lparr>questionStatuses := (questionStatuses s)(?i \<mapsto> marked)\<rparr>)"
  have n: "navigateToQuestion b now (int ?i + 1) ?s1 = Some s'"
    using assms by (simp add: markReview_def Let_def)
  from navigate_frame[OF n] show ?thesis by simp
qed

lemma step_frame:
  assumes "step b s e = Some s'"
  shows "timerInterval s' = timerInterval s \<and> activeIntervals s' = activeIntervals s \<and>
         nextHandle s' = nextHandle s \<and> timeRemaining s' = timeRemaining s \<and>
         performanceHistory s' = performanceHistory s \<and> notices s' = notices s"
proof (cases e)
  case (Pair now a)
  show ?thesis
  proof (cases a)
    case (Select k)
    then have "s' = s \<or> s' = s\<lparr>checkedOption := Some k\<rparr>"
      using assms Pair by (auto split: if_splits)
    then show ?thesis by auto
  next
    case Clear
    then have "s' = s\<lparr>checkedOption := None\<rparr>" using assms Pair by auto
    then show ?thesis by simp
  next
    case SaveNext
    then have "navigateToQuestion b now (int (currentQuestionIndex s) + 1) s = Some s'"
      using assms Pair by simp
    then show ?thesis by (rule navigate_frame)
  next
    case Prev
    then have "s' = s \<or> navigateToQuestion b now (int (currentQuestionIndex s) - 1) s = Some s'"
      using assms Pair by (auto split: if_splits)
    then show ?thesis using navigate_frame by blast
  next
    case (Palette j)
    then have "s' = s \<or> navigateToQuestion b now (int j) s = Some s'"
      using assms Pair by (auto split: if_splits)
    then show ?thesis using navigate_frame by blast
  next
    case MarkReview
    then have "markReview b now s = Some s'" using assms Pair by simp
    then show ?thesis by (rule markReview_frame)
  qed
qed

lemma session_append:
  "session b s (es @ fs) = (case session b s es of None \<Rightarrow> None | Some s' \<Rightarrow> session b s' fs)"
proof (induction es arbitrary: s)
  case Nil
  then show ?case by simp
next
  case (Cons e es)
  obtain now ev where e: "e = (now, ev)" by (cases e)
  show ?case by (cases ev) (simp_all add: e Cons.IH split: option.splits)
qed

lemma session_before_expiry:
  assumes "attempt_inv t s" and "timer_inv s" and "timerInterval s \<noteq> None"
    and "int (ticksIn es) < timeRemaining s"
  shows "\<exists>s'. session b s es = Some s' \<and> attempt_inv t s' \<and> timer_inv s' \<and>
           timerInterval s' \<noteq> None \<and> timeRemaining s' = timeRemaining s - int (ticksIn es) \<and>
           performanceHistory s' = performanceHistory s \<and> notices s' = notices s"
  using assms
proof (induction es arbitrary: s)
  case Nil
  then show ?case by (simp add: ticksIn_def)
next
  case (Cons e es)
  obtain now ev where e: "e = (now, ev)" by (cases e)
  show ?case
  proof (cases ev)
    case Tick
    have tk: "ticksIn (e # es) = Suc (ticksIn es)" by (simp add: ticksIn_def e Tick)
    with Cons.prems(4) have tr: "1 < timeRemaining s" by simp
    from Cons.prems(3) obtain h where h: "timerInterval s = Some h" by auto
    with Cons.prems(2) have "h \<in> set (activeIntervals s)" by (simp add: timer_inv_def)
    then have fire: "intervalFires b now h s = Some (s\<lparr>timeRemaining := timeRemaining s - 1\<rparr>)"
      by (simp add: intervalFires_def tick_running[OF tr])
    let ?s1 = "s\<lparr>timeRemaining := timeRemaining s - 1\<rparr>"
    have i1: "attempt_inv t ?s1" using Cons.prems(1) by (simp add: attempt_inv_def)
    have t1: "timer_inv ?s1" using Cons.prems(2) by (rule timer_inv_cong) simp_all
    have r1: "timerInterval ?s1 \<noteq> None" using Cons.prems(3) by simp
    have l1: "int (ticksIn es) < timeRemaining ?s1" using Cons.prems(4) tk by simp
    from Cons.IH[OF i1 t1 r1 l1] obtain s' where
      s': "session b ?s1 es = Some s'" "attempt_inv t s'" "timer_inv s'" "timerInterval s' \<noteq> None"
          "timeRemaining s' = timeRemaining ?s1 - int (ticksIn es)"
          "performanceHistory s' = performanceHistory ?s1" "notices s' = notices ?s1"
      by blast
    have run: "session b s (e # es) = Some s'"
      unfolding e Tick using h fire s'(1) by simp
    have rem: "timeRemaining s' = timeRemaining s - int (ticksIn (e # es))"
      unfolding tk using s'(5) by simp
    show ?thesis
      using run s'(2,3,4) rem s'(6,7) by (intro exI[of _ s']) simp
  next
    case (User a)
    have tk: "ticksIn (e # es) = ticksIn es" by (simp add: ticksIn_def e User)
    from step_inv[OF Cons.prems(1), of b "(now, a)"] obtain s1 where
      s1: "step b s (now, a) = Some s1" "attempt_inv t s1" by blast
    note fr = step_frame[OF s1(1)]
    have t1: "timer_inv s1" by (rule timer_inv_cong[OF Cons.prems(2)]) (simp_all add: fr)
    have r1: "timerInterval s1 \<noteq> None" using Cons.prems(3) fr by simp
    have l1: "int (ticksIn es) < timeRemaining s1" using Cons.prems(4) tk fr by simp
    from Cons.IH[OF s1(2) t1 r1 l1] obtain s' where
      s': "session b s1 es = Some s'" "attempt_inv t s'" "timer_inv s'" "timerInterval s' \<noteq> None"
          "timeRemaining s' = timeRemaining s1 - int (ticksIn es)"
          "performanceHistory s' = performanceHistory s1" "notices s' = notices s1"
      by blast
    have run: "session b s (e # es) = Some s'"
      unfolding e User using s1(1) s'(1) by simp
    have rem: "timeRemaining s' = timeRemaining s - int (ticksIn (e # es))"
      unfolding tk using s'(5) fr by simp
    show ?thesis
      using run s'(2,3,4) rem s'(6,7) fr by (intro exI[of _ s']) simp
  qed
qed

text \<open>
  Claim C6. With one interval running for the attempt, the tick that brings the remaining
  time to 0 records exactly one attempt, issues one time-up notice and leaves no interval
  running, so no later tick can fire; an earlier tick only decrements the remaining time.
  So in every session after \<^verbatim>\<open>startTest\<close>, whatever the user does between the
  ticks, the tick number \<open>duration * 60\<close> submits, once. \<^verbatim>\<open>startTimer\<close> leaves
  only the new interval running, and a confirmed manual submit or abandon leaves none.
\<close>

theorem timer_expiry_submits_once:
  assumes "timer_inv s"
  shows "(\<forall>h t. h \<in> set (activeIntervals s) \<longrightarrow> currentTest s = Some t \<longrightarrow> timeRemaining s \<le> 1 \<longrightarrow>
            (\<exists>s' a. intervalFires b now h s = Some s' \<and>
               performanceHistory s' = a # performanceHistory s \<and>
               count_list (notices s') TimeUp = Suc (count_list (notices s) TimeUp) \<and>
               activeIntervals s' = [] \<and> timerInterval s' = None \<and>
               (\<forall>now' h'. intervalFires b now' h' s' = None))) \<and>
         (\<forall>h. h \<in> set (activeIntervals s) \<longrightarrow> 1 < timeRemaining s \<longrightarrow>
            intervalFires b now h s = Some (s\<lparr>timeRemaining := timeRemaining s - 1\<rparr>)) \<and>
         (\<forall>test s1 es final. startTest b now test s = Some s1 \<longrightarrow>
            int (ticksIn es) + 1 = duration test * 60 \<longrightarrow>
            (\<exists>s' a. session b s1 (es @ [(final, Tick)]) = Some s' \<and>
               performanceHistory s' = a # performanceHistory s \<and>
               count_list (notices s') TimeUp = Suc (count_list (notices s) TimeUp) \<and>
               activeIntervals s' = [] \<and> timerInterval s' = None \<and>
               (\<forall>now' h'. intervalFires b now' h' s' = None))) \<and>
         activeIntervals (startTimer s) = [nextHandle s] \<and>
         nextHandle s \<notin> set (activeIntervals s) \<and>
         activeIntervals (submitClicked b now True s) = [] \<and>
         activeIntervals (abandonClicked b True s) = []"
proof (intro conjI allI impI)
  fix h t
  assume h: "h \<in> set (activeIntervals s)" and ct: "currentTest s = Some t"
    and tr: "timeRemaining s \<le> 1"
  have f: "intervalFires b now h s = Some (tick b now s)"
    using h by (simp add: intervalFires_def)
  from tick_expires[OF assms ct tr, of b now] f
  show "\<exists>s' a. intervalFires b now h s = Some s' \<and>
               performanceHistory s' = a # performanceHistory s \<and>
               count_list (notices s') TimeUp = Suc (count_list (notices s) TimeUp) \<and>
               activeIntervals s' = [] \<and> timerInterval s' = None \<and>
               (\<forall>now' h'. intervalFires b now' h' s' = None)"
    by (auto simp: no_interval_no_tick)
next
  fix h
  assume "h \<in> set (activeIntervals s)" and "1 < timeRemaining s"
  then show "intervalFires b now h s = Some (s\<lparr>timeRemaining := timeRemaining s - 1\<rparr>)"
    by (simp add: intervalFires_def tick_running)
next
  fix test s1 final and es :: "(int \<times> event) list"
  assume st: "startTest b now test s = Some s1"
    and len: "int (ticksIn es) + 1 = duration test * 60"
  note s1 = startTest_timer[OF assms st]
  have lt: "int (ticksIn es) < timeRemaining s1" using s1(4) len by simp
  from session_before_expiry[OF startTest_inv[OF st] s1(1) s1(2) lt, of b] obtain s2 where
    s2: "session b s1 es = Some s2" "attempt_inv test s2" "timer_inv s2" "timerInterval s2 \<noteq> None"
        "timeRemaining s2 = timeRemaining s1 - int (ticksIn es)"
        "performanceHistory s2 = performanceHistory s1" "notices s2 = notices s1"
    by blast
  have ct: "currentTest s2 = Some test" using s2(2) by (simp add: attempt_inv_def)
  have tr: "timeRemaining s2 \<le> 1" using s2(5) s1(4) len by simp
  from s2(4) obtain h where h: "timerInterval s2 = Some h" by auto
  with s2(3) have "h \<in> set (activeIntervals s2)" by (simp add: timer_inv_def)
  then have fire: "intervalFires b final h s2 = Some (tick b final s2)"
    by (simp add: intervalFires_def)
  have run: "session b s1 (es @ [(final, Tick)]) = Some (tick b final s2)"
    unfolding session_append using s2(1) h fire by simp
  from tick_expires[OF s2(3) ct tr, of b final] run
  show "\<exists>s' a. session b s1 (es @ [(final, Tick)]) = Some s' \<and>
               performanceHistory s' = a # performanceHistory s \<and>
               count_list (notices s') TimeUp = Suc (count_list (notices s) TimeUp) \<and>
               activeIntervals s' = [] \<and> timerInterval s' = None \<and>
               (\<forall>now' h'. intervalFires b now' h' s' = None)"
    unfolding s2(6,7) s1(5,6) by (auto simp: no_interval_no_tick)
next
  show "activeIntervals (startTimer s) = [nextHandle s]"
    by (rule startTimer_replaces[OF assms])
  show "nextHandle s \<notin> set (activeIntervals s)"
    by (rule startTimer_replaces[OF assms])
  show "activeIntervals (submitClicked b now True s) = []"
    by (simp add: submitClicked_def handleSubmitTest_timer[OF assms])
  show "activeIntervals (abandonClicked b True s) = []"
    using stopTimer_stops(1)[OF assms] assms
    by (cases b) (auto simp: abandonClicked_def Let_def timer_inv_def split: option.splits)
qed

theorem timer_expiry_submits_once_witness:
  "timer_inv lastSecondState \<and> 1 \<in> set (activeIntervals lastSecondState) \<and>
   currentTest lastSecondState = Some (exampleTest 2 0.66) \<and> timeRemaining lastSecondState \<le> 1 \<and>
   (\<exists>s' a. intervalFires Index_tsx 1800000 1 lastSecondState = Some s' \<and>
       performanceHistory s' = [a] \<and> count_list (notices s') TimeUp = 1 \<and>
       activeIntervals s' = [] \<and> intervalFires Index_tsx 1801000 1 s' = None)"
proof -
  have inv: "timer_inv lastSecondState"
    by (simp add: timer_inv_def lastSecondState_def freshState_def initialState_def)
  have a: "1 \<in> set (activeIntervals lastSecondState)"
    and ct: "currentTest lastSecondState = Some (exampleTest 2 0.66)"
    and tr: "timeRemaining lastSecondState \<le> 1"
    and h: "performanceHistory lastSecondState = []"
    and n: "notices lastSecondState = []"
    by (simp_all add: lastSecondState_def freshState_def initialState_def)
  have "\<exists>s' a. intervalFires Index_tsx 1800000 1 lastSecondState = Some s' \<and>
               performanceHistory s' = a # performanceHistory lastSecondState \<and>
               count_list (notices s') TimeUp = Suc (count_list (notices lastSecondState) TimeUp) \<and>
               activeIntervals s' = [] \<and> timerInterval s' = None \<and>
               (\<forall>now' h'. intervalFires Index_tsx now' h' s' = None)"
    using timer_expiry_submits_once[OF inv, where b = Index_tsx and now = 1800000] a ct tr by blast
  then show ?thesis using inv a ct tr unfolding h n by auto
qed

section \<open>Properties: backup restore\<close>

lemma map_set_fst:
  "map fst (map_set k v m) = (if k \<in> fst ` set m then map fst m else map fst m @ [k])"
proof (induction m)
  case Nil
  then show ?case by simp
next
  case (Cons e m)
  obtain k' v' where e: "e = (k', v')" by (cases e)
  show ?case
  proof (cases "k' = k")
    case True
    then show ?thesis by (simp add: e)
  next
    case False
    then have "(k \<in> fst ` set (e # m)) = (k \<in> fst ` set m)" by (auto simp: e)
    then show ?thesis using False Cons.IH by (simp add: e)
  qed
qed

lemma map_set_keys: "fst ` set (map_set k v m) = insert k (fst ` set m)"
proof -
  have "set (map fst (map_set k v m)) = insert k (set (map fst m))"
    unfolding map_set_fst by auto
  then show ?thesis by simp
qed

lemma map_set_distinct: "distinct (map fst m) \<Longrightarrow> distinct (map fst (map_set k v m))"
  unfolding map_set_fst by auto

lemma map_set_map_of:
  "distinct (map fst m) \<Longrightarrow> map_of (map_set k v m) = (map_of m)(k \<mapsto> v)"
proof (induction m)
  case Nil
  then show ?case by simp
next
  case (Cons e m)
  obtain k' v' where e: "e = (k', v')" by (cases e)
  show ?case
  proof (cases "k' = k")
    case True
    then show ?thesis by (auto simp: e fun_eq_iff)
  next
    case False
    then show ?thesis using Cons by (auto simp: e fun_eq_iff)
  qed
qed

lemma foldl_map_set:
  "distinct (map fst m) \<Longrightarrow>
     distinct (map fst (foldl (\<lambda>m (k, v). map_set k v m) m es)) \<and>
     map_of (foldl (\<lambda>m (k, v). map_set k v m) m es) = map_of m ++ map_of (rev es) \<and>
     fst ` set (foldl (\<lambda>m (k, v). map_set k v m) m es) = fst ` set m \<union> fst ` set es"
proof (induction es arbitrary: m)
  case Nil
  then show ?case by simp
next
  case (Cons e es)
  obtain k v where e: "e = (k, v)" by (cases e)
  have d: "distinct (map fst (map_set k v m))" using Cons.prems by (rule map_set_distinct)
  have "map_of (map_set k v m) ++ map_of (rev es) = map_of m ++ map_of (rev es @ [(k, v)])"
    by (simp add: map_set_map_of[OF Cons.prems] map_add_upd_left)
  then show ?case using Cons.IH[OF d] by (simp add: e map_set_keys)
qed

lemma new_Map_props:
  "distinct (map fst (new_Map es))"
  "map_of (new_Map es) = map_of (rev es)"
  "fst ` set (new_Map es) = fst ` set es"
  using foldl_map_set[of "[]" es] by (simp_all add: new_Map_def)

lemma map_of_rev_keyed:
  "map_of (rev (map (\<lambda>t. (f t, t)) xs)) k =
     (if filter (\<lambda>t. f t = k) xs = [] then None else Some (last (filter (\<lambda>t. f t = k) xs)))"
  by (induction xs rule: rev_induct) auto

lemma new_Map_keyed_entry:
  assumes "(k, u) \<in> set (new_Map (map (\<lambda>t. (f t, t)) xs))"
  shows "k = f u" and "filter (\<lambda>t. f t = f u) xs \<noteq> []"
    and "u = last (filter (\<lambda>t. f t = f u) xs)"
proof -
  have "map_of (new_Map (map (\<lambda>t. (f t, t)) xs)) k = Some u"
    using assms by (simp add: new_Map_props(1))
  then have m: "map_of (rev (map (\<lambda>t. (f t, t)) xs)) k = Some u"
    by (simp add: new_Map_props(2))
  then have "(k, u) \<in> set (rev (map (\<lambda>t. (f t, t)) xs))" by (rule map_of_SomeD)
  then show k: "k = f u" by auto
  from m show "filter (\<lambda>t. f t = f u) xs \<noteq> []"
    unfolding k map_of_rev_keyed by (simp split: if_splits)
  from m show "u = last (filter (\<lambda>t. f t = f u) xs)"
    unfolding k map_of_rev_keyed by (simp split: if_splits)
qed

lemma new_Map_keyed_values:
  "map f (map_values (new_Map (map (\<lambda>t. (f t, t)) xs))) = map fst (new_Map (map (\<lambda>t. (f t, t)) xs))"
  unfolding map_values_def map_map
  by (rule map_cong[OF refl]) (auto dest: new_Map_keyed_entry(1))

lemma restoreBackup_tests:
  "fst (restoreBackup True data (currentTests, currentHistory)) =
     map_values (new_Map (map (\<lambda>item. (id_test item, item)) (backupTests data @ currentTests)))"
  by (simp add: restoreBackup_def backupTests_def Let_def split: option.splits)

text \<open>
  Claim C3, as amended. Restoring a backup merges the tests of the backup, first, with the
  locally stored tests and de-duplicates by test id: no id appears twice in the result and
  every id of either side keeps one test. The copy kept for an id is the last one in
  backup-then-local order, so when a test id exists both locally and in the backup the
  locally stored copy is the one kept; with distinct local ids every local test survives.
\<close>

theorem restore_dedup_local_wins:
  assumes "restoreBackup True data (currentTests, currentHistory) = (uniqueTests, newHistory)"
  shows "distinct (map id_test uniqueTests) \<and>
         id_test ` set uniqueTests = id_test ` (set (backupTests data) \<union> set currentTests) \<and>
         (\<forall>u \<in> set uniqueTests.
            u = last (filter (\<lambda>t. id_test t = id_test u) (backupTests data @ currentTests))) \<and>
         (\<forall>u \<in> set uniqueTests.
            (\<exists>t \<in> set currentTests. id_test t = id_test u) \<longrightarrow> u \<in> set currentTests) \<and>
         (distinct (map id_test currentTests) \<longrightarrow> set currentTests \<subseteq> set uniqueTests)"
proof -
  let ?xs = "backupTests data @ currentTests"
  let ?m = "new_Map (map (\<lambda>item. (id_test item, item)) ?xs)"
  have u: "uniqueTests = map_values ?m"
    using restoreBackup_tests[of data currentTests currentHistory] assms by simp
  have ids: "map id_test uniqueTests = map fst ?m"
    unfolding u by (rule new_Map_keyed_values)
  have d: "distinct (map id_test uniqueTests)"
    unfolding ids by (rule new_Map_props)
  have "set (map id_test uniqueTests) = fst ` set ?m" unfolding ids by simp
  then have k: "id_test ` set uniqueTests = id_test ` (set (backupTests data) \<union> set currentTests)"
    by (simp add: new_Map_props(3) image_image image_Un)
  have l: "u = last (filter (\<lambda>t. id_test t = id_test u) ?xs)" if "u \<in> set uniqueTests" for u
  proof -
    from that obtain k where "(k, u) \<in> set ?m" unfolding u map_values_def by auto
    then show ?thesis by (rule new_Map_keyed_entry(3))
  qed
  have w: "u \<in> set currentTests"
    if "u \<in> set uniqueTests" and "\<exists>t \<in> set currentTests. id_test t = id_test u" for u
  proof -
    from that(2) have ne: "filter (\<lambda>t. id_test t = id_test u) currentTests \<noteq> []"
      by (auto simp: filter_empty_conv)
    then have "last (filter (\<lambda>t. id_test t = id_test u) ?xs)
                 = last (filter (\<lambda>t. id_test t = id_test u) currentTests)"
      by simp
    then have "u = last (filter (\<lambda>t. id_test t = id_test u) currentTests)"
      using l[OF that(1)] by simp
    then have "u \<in> set (filter (\<lambda>t. id_test t = id_test u) currentTests)"
      using last_in_set[OF ne] by simp
    then show ?thesis by simp
  qed
  have s: "set currentTests \<subseteq> set uniqueTests" if dc: "distinct (map id_test currentTests)"
  proof
    fix t assume t: "t \<in> set currentTests"
    then have "id_test t \<in> id_test ` set uniqueTests" unfolding k by simp
    then obtain u where uu: "u \<in> set uniqueTests" and e: "id_test u = id_test t" by auto
    have "u \<in> set currentTests" using w[OF uu] t e by auto
    then have "u = t" using dc t e by (auto simp: distinct_map dest: inj_onD)
    then show "t \<in> set uniqueTests" using uu by simp
  qed
  show ?thesis using d k l w s by blast
qed

theorem restore_dedup_local_wins_witness:
  "restoreBackup True sameIdBackup ([localCopy], []) = ([localCopy], []) \<and>
   distinct (map id_test [localCopy]) \<and> id_test importedCopy = id_test localCopy \<and>
   localCopy \<in> set [localCopy]"
proof -
  have r: "restoreBackup True sameIdBackup ([localCopy], []) = ([localCopy], [])"
    by (simp add: restoreBackup_def sameIdBackup_def new_Map_def map_values_def Let_def
        importedCopy_def localCopy_def exampleTest_def)
  have i: "id_test importedCopy = id_test localCopy"
    by (simp add: importedCopy_def localCopy_def)
  from restore_dedup_local_wins[OF r] r i show ?thesis by simp
qed

text \<open>
  The claim C3 as stated fails: with one local test and a backup holding another copy
  under the same id, the imported copy is not in the restored list.
\<close>

theorem restore_keeps_import_counterexample:
  "id_test importedCopy = id_test localCopy \<and>
   importedCopy \<notin> set (fst (restoreBackup True sameIdBackup ([localCopy], [])))"
  by (simp add: restoreBackup_def sameIdBackup_def new_Map_def map_values_def Let_def
        importedCopy_def localCopy_def exampleTest_def)

section \<open>Properties: back end\<close>

lemma handle_no_token:
  "bearerToken (authorization req) = None \<Longrightarrow> handle verify d req = (Status401, d)"
  by (simp add: handle_def authenticateToken_def)

lemma handle_bad_token:
  "bearerToken (authorization req) = Some token \<Longrightarrow> verify token = None \<Longrightarrow>
     handle verify d req = (Status403, d)"
  by (simp add: handle_def authenticateToken_def)

lemma handle_valid:
  "bearerToken (authorization req) = Some token \<Longrightarrow> verify token = Some user \<Longrightarrow>
     handle verify d req = serve user (route req) d"
  by (simp add: handle_def authenticateToken_def)

lemma serve_read:
  assumes "isRead r"
  shows "snd (serve user r d) = d"
    and "\<forall>x \<in> set (docsOf (fst (serve user r d))). userId x = Some (id_user user)"
    and "r = GetTests \<longrightarrow> fst (serve user r d) = DocsJson (ownedBy (id_user user) (tests_db d))"
    and "r = GetAttempts \<longrightarrow> fst (serve user r d) = DocsJson (ownedBy (id_user user) (attempts_db d))"
    and "r = GetSync \<longrightarrow> fst (serve user r d) =
           SyncJson (ownedBy (id_user user) (tests_db d)) (ownedBy (id_user user) (attempts_db d))"
  using assms by (auto simp: isRead_def serve_def ownedBy_def)

lemma serve_read_only_own:
  assumes "isRead r"
    and "ownedBy (id_user user) (tests_db d') = ownedBy (id_user user) (tests_db d)"
    and "ownedBy (id_user user) (attempts_db d') = ownedBy (id_user user) (attempts_db d)"
  shows "fst (serve user r d') = fst (serve user r d)"
  using assms by (auto simp: isRead_def serve_def ownedBy_def)

text \<open>
  Claim C8. Every route behind the middleware answers a request without a bearer token
  with 401 and one whose token does not verify with 403, and leaves the database alone.
  With a token that verifies, the three reads (tests, attempts, sync) return exactly the
  stored records whose \<^verbatim>\<open>userId\<close> is the id in the token: the response holds no record
  of another account and is the same for any two databases that agree on this account's
  records.
\<close>

theorem reads_are_scoped:
  "(bearerToken (authorization req) = None \<longrightarrow> handle verify d req = (Status401, d)) \<and>
   (\<forall>token. bearerToken (authorization req) = Some token \<longrightarrow> verify token = None \<longrightarrow>
      handle verify d req = (Status403, d)) \<and>
   (\<forall>token user. bearerToken (authorization req) = Some token \<longrightarrow> verify token = Some user \<longrightarrow>
      isRead (route req) \<longrightarrow>
        snd (handle verify d req) = d \<and>
        (\<forall>x \<in> set (docsOf (fst (handle verify d req))). userId x = Some (id_user user)) \<and>
        (route req = GetTests \<longrightarrow>
           fst (handle verify d req) = DocsJson (ownedBy (id_user user) (tests_db d))) \<and>
        (route req = GetAttempts \<longrightarrow>
           fst (handle verify d req) = DocsJson (ownedBy (id_user user) (attempts_db d))) \<and>
        (route req = GetSync \<longrightarrow>
           fst (handle verify d req) =
             SyncJson (ownedBy (id_user user) (tests_db d)) (ownedBy (id_user user) (attempts_db d))) \<and>
        (\<forall>d'. ownedBy (id_user user) (tests_db d') = ownedBy (id_user user) (tests_db d) \<longrightarrow>
              ownedBy (id_user user) (attempts_db d') = ownedBy (id_user user) (attempts_db d) \<longrightarrow>
              fst (handle verify d' req) = fst (handle verify d req)))"
proof (intro conjI allI impI)
  assume "bearerToken (authorization req) = None"
  then show "handle verify d req = (Status401, d)" by (rule handle_no_token)
next
  fix token
  assume "bearerToken (authorization req) = Some token" and "verify token = None"
  then show "handle verify d req = (Status403, d)" by (rule handle_bad_token)
next
  fix token user
  assume t: "bearerToken (authorization req) = Some token" and v: "verify token = Some user"
    and r: "isRead (route req)"
  note h = handle_valid[where verify = verify, OF t v]
  show "snd (handle verify d req) = d" unfolding h by (rule serve_read[OF r])
  show "\<forall>x \<in> set (docsOf (fst (handle verify d req))). userId x = Some (id_user user)"
    unfolding h by (rule serve_read[OF r])
  show "route req = GetTests \<Longrightarrow>
          fst (handle verify d req) = DocsJson (ownedBy (id_user user) (tests_db d))"
    unfolding h using serve_read(3)[OF r] by simp
  show "route req = GetAttempts \<Longrightarrow>
          fst (handle verify d req) = DocsJson (ownedBy (id_user user) (attempts_db d))"
    unfolding h using serve_read(4)[OF r] by simp
  show "route req = GetSync \<Longrightarrow>
          fst (handle verify d req) =
             SyncJson (ownedBy (id_user user) (tests_db d)) (ownedBy (id_user user) (attempts_db d))"
    unfolding h using serve_read(5)[OF r] by simp
  show "fst (handle verify d' req) = fst (handle verify d req)"
    if "ownedBy (id_user user) (tests_db d') = ownedBy (id_user user) (tests_db d)"
      and "ownedBy (id_user user) (attempts_db d') = ownedBy (id_user user) (attempts_db d)" for d'
    unfolding h by (rule serve_read_only_own[OF r that])
qed

lemma ownedBy_replaced:
  "ownedBy uid (filter (\<lambda>x. userId x \<noteq> Some uid) ds @ map (stampOwner uid) xs) = map (stampOwner uid) xs"
proof -
  have "filter (\<lambda>x. userId x = Some uid) (filter (\<lambda>x. userId x \<noteq> Some uid) ds) = []"
    by (simp add: filter_empty_conv)
  moreover have "filter (\<lambda>x. userId x = Some uid) (map (stampOwner uid) xs) = map (stampOwner uid) xs"
    by (simp add: filter_id_conv stampOwner_def)
  ultimately show ?thesis by (simp add: ownedBy_def)
qed

lemma stamped_filtered_out:
  "filter (\<lambda>x. userId x \<noteq> Some uid) (map (stampOwner uid) xs) = []"
  by (simp add: filter_empty_conv stampOwner_def)

lemma pushEach_other: "OtherValue \<in> set xs \<Longrightarrow> pushEach uid xs stored = None"
proof (induction xs arbitrary: stored)
  case Nil
  then show ?case by simp
next
  case (Cons x xs)
  then show ?case by (cases x) auto
qed

lemma pushEach_objects:
  "list_all isObject xs \<Longrightarrow>
     pushEach uid xs stored = Some (stored @ map (stampOwner uid) (objectsIn xs))"
proof (induction xs arbitrary: stored)
  case Nil
  then show ?case by simp
next
  case (Cons x xs)
  then show ?case by (cases x) (simp_all add: stampOwner_def)
qed

lemma pushEach_other_user:
  "pushEach uid xs stored = Some ys \<Longrightarrow> v \<noteq> uid \<Longrightarrow> ownedBy v ys = ownedBy v stored"
proof (induction xs arbitrary: stored)
  case Nil
  then show ?case by simp
next
  case (Cons x xs)
  from Cons.prems(1) obtain y where y: "setUserId uid x = Some y"
    and r: "pushEach uid xs (stored @ [y]) = Some ys"
    by (auto split: option.splits)
  have "userId y \<noteq> Some v" using y Cons.prems(2) by (cases x) auto
  then have "ownedBy v (stored @ [y]) = ownedBy v stored" by (simp add: ownedBy_def)
  with Cons.IH[OF r Cons.prems(2)] show ?case by simp
qed

lemma pushArray_other: "hasOther field \<Longrightarrow> pushArray uid field stored = None"
  by (cases field) (simp_all add: hasOther_def pushArray_def pushEach_other)

lemma pushArray_objects:
  "allObjects field \<Longrightarrow>
     pushArray uid field stored = Some (stored @ map (stampOwner uid) (arrayOrEmpty field))"
  by (cases field) (simp_all add: allObjects_def pushArray_def arrayOrEmpty_def pushEach_objects)

lemma pushArray_other_user:
  "pushArray uid field stored = Some ys \<Longrightarrow> v \<noteq> uid \<Longrightarrow> ownedBy v ys = ownedBy v stored"
  by (cases field) (auto simp: pushArray_def dest: pushEach_other_user)

lemma ownedBy_others_filtered:
  "v \<noteq> uid \<Longrightarrow> ownedBy v (filter (\<lambda>x. userId x \<noteq> Some uid) ds) = ownedBy v ds"
  unfolding ownedBy_def by (auto intro: filter_cong)

lemma serve_PostSync_rejected:
  assumes "hasOther tests \<or> hasOther attempts"
  shows "serve user (PostSync tests attempts) d = (Status500, d)"
proof (cases "hasOther tests")
  case True
  then show ?thesis by (simp add: serve_def Let_def pushArray_other)
next
  case False
  with assms have "hasOther attempts" by simp
  then show ?thesis by (simp add: serve_def Let_def pushArray_other split: option.splits)
qed

lemma serve_PostSync:
  assumes "allObjects tests" and "allObjects attempts"
  shows "serve user (PostSync tests attempts) d =
     (MessageJson,
      \<lparr>tests_db = filter (\<lambda>x. userId x \<noteq> Some (id_user user)) (tests_db d)
                    @ map (stampOwner (id_user user)) (arrayOrEmpty tests),
       attempts_db = filter (\<lambda>x. userId x \<noteq> Some (id_user user)) (attempts_db d)
                    @ map (stampOwner (id_user user)) (arrayOrEmpty attempts)\<rparr>)"
  by (simp add: serve_def Let_def pushArray_objects[OF assms(1)] pushArray_objects[OF assms(2)])

lemma serve_PostSync_other_user:
  assumes "v \<noteq> id_user user"
  shows "ownedBy v (tests_db (snd (serve user (PostSync tests attempts) d))) = ownedBy v (tests_db d)"
    and "ownedBy v (attempts_db (snd (serve user (PostSync tests attempts) d))) = ownedBy v (attempts_db d)"
proof -
  let ?uid = "id_user user"
  let ?t1 = "filter (\<lambda>t. userId t \<noteq> Some ?uid) (tests_db d)"
  let ?a1 = "filter (\<lambda>a. userId a \<noteq> Some ?uid) (attempts_db d)"
  have both: "ownedBy v (tests_db (snd (serve user (PostSync tests attempts) d))) = ownedBy v (tests_db d) \<and>
     ownedBy v (attempts_db (snd (serve user (PostSync tests attempts) d))) = ownedBy v (attempts_db d)"
  proof (cases "pushArray ?uid tests ?t1")
    case None
    then show ?thesis by (simp add: serve_def Let_def)
  next
    case t2: (Some tests2)
    show ?thesis
    proof (cases "pushArray ?uid attempts ?a1")
      case None
      then show ?thesis using t2 by (simp add: serve_def Let_def)
    next
      case a2: (Some attempts2)
      have "ownedBy v tests2 = ownedBy v (tests_db d)"
        using pushArray_other_user[OF t2 assms] ownedBy_others_filtered[OF assms] by simp
      moreover have "ownedBy v attempts2 = ownedBy v (attempts_db d)"
        using pushArray_other_user[OF a2 assms] ownedBy_others_filtered[OF assms] by simp
      ultimately show ?thesis using t2 a2 by (simp add: serve_def Let_def)
    qed
  qed
  from both show "ownedBy v (tests_db (snd (serve user (PostSync tests attempts) d))) = ownedBy v (tests_db d)"
    by simp
  from both show "ownedBy v (attempts_db (snd (serve user (PostSync tests attempts) d))) = ownedBy v (attempts_db d)"
    by simp
qed

text \<open>
  Claim C10, as amended. \<^verbatim>\<open>POST /api/sync\<close> by an authenticated user, with a body
  whose array elements are all JSON objects, makes that user's stored tests and attempts
  the arrays of the body, each record stamped with the user's id (none for a field that
  is missing or not an array), and keeps every other record. A body with an array that
  holds null, a number, a string or a boolean is answered with 500 and changes nothing.
  Whatever the body, the records of every other user are unchanged.
\<close>

theorem bulk_sync_replaces_own_records:
  assumes "bearerToken (authorization req) = Some token" and "verify token = Some user"
    and "route req = PostSync tests attempts"
  shows "(hasOther tests \<or> hasOther attempts \<longrightarrow> handle verify d req = (Status500, d)) \<and>
         (allObjects tests \<and> allObjects attempts \<longrightarrow>
            fst (handle verify d req) = MessageJson \<and>
            ownedBy (id_user user) (tests_db (snd (handle verify d req)))
              = map (stampOwner (id_user user)) (arrayOrEmpty tests) \<and>
            ownedBy (id_user user) (attempts_db (snd (handle verify d req)))
              = map (stampOwner (id_user user)) (arrayOrEmpty attempts) \<and>
            filter (\<lambda>x. userId x \<noteq> Some (id_user user)) (tests_db (snd (handle verify d req)))
              = filter (\<lambda>x. userId x \<noteq> Some (id_user user)) (tests_db d) \<and>
            filter (\<lambda>x. userId x \<noteq> Some (id_user user)) (attempts_db (snd (handle verify d req)))
              = filter (\<lambda>x. userId x \<noteq> Some (id_user user)) (attempts_db d)) \<and>
         (\<forall>v. v \<noteq> id_user user \<longrightarrow>
            ownedBy v (tests_db (snd (handle verify d req))) = ownedBy v (tests_db d) \<and>
            ownedBy v (attempts_db (snd (handle verify d req))) = ownedBy v (attempts_db d))"
proof (intro conjI allI impI)
  note h = handle_valid[where verify = verify, OF assms(1,2)]
  show "handle verify d req = (Status500, d)" if "hasOther tests \<or> hasOther attempts"
    unfolding h assms(3) using that by (rule serve_PostSync_rejected)
  show "ownedBy v (tests_db (snd (handle verify d req))) = ownedBy v (tests_db d)"
    if "v \<noteq> id_user user" for v
    unfolding h assms(3) using that by (rule serve_PostSync_other_user)
  show "ownedBy v (attempts_db (snd (handle verify d req))) = ownedBy v (attempts_db d)"
    if "v \<noteq> id_user user" for v
    unfolding h assms(3) using that by (rule serve_PostSync_other_user)
  assume "allObjects tests \<and> allObjects attempts"
  then have s: "handle verify d req =
     (MessageJson,
      \<lparr>tests_db = filter (\<lambda>x. userId x \<noteq> Some (id_user user)) (tests_db d)
                    @ map (stampOwner (id_user user)) (arrayOrEmpty tests),
       attempts_db = filter (\<lambda>x. userId x \<noteq> Some (id_user user)) (attempts_db d)
                    @ map (stampOwner (id_user user)) (arrayOrEmpty attempts)\<rparr>)"
    unfolding h assms(3) by (simp add: serve_PostSync)
  show "fst (handle verify d req) = MessageJson" unfolding s by simp
  show "ownedBy (id_user user) (tests_db (snd (handle verify d req)))
          = map (stampOwner (id_user user)) (arrayOrEmpty tests)"
    unfolding s by (simp add: ownedBy_replaced)
  show "ownedBy (id_user user) (attempts_db (snd (handle verify d req)))
          = map (stampOwner (id_user user)) (arrayOrEmpty attempts)"
    unfolding s by (simp add: ownedBy_replaced)
  show "filter (\<lambda>x. userId x \<noteq> Some (id_user user)) (tests_db (snd (handle verify d req)))
          = filter (\<lambda>x. userId x \<noteq> Some (id_user user)) (tests_db d)"
    unfolding s by (simp add: stamped_filtered_out)
  show "filter (\<lambda>x. userId x \<noteq> Some (id_user user)) (attempts_db (snd (handle verify d req)))
          = filter (\<lambda>x. userId x \<noteq> Some (id_user user)) (attempts_db d)"
    unfolding s by (simp add: stamped_filtered_out)
qed

lemmas backend_examples =
  userA_def userB_def exampleVerify_def docOf_def exampleDb_def requestOf_def unownedDoc_def
  objectSync_def nullSync_def

theorem reads_are_scoped_witness:
  "bearerToken (authorization (requestOf (Some ''Bearer tokenA'') GetSync)) = Some ''tokenA'' \<and>
   exampleVerify ''tokenA'' = Some userA \<and> isRead (route (requestOf (Some ''Bearer tokenA'') GetSync)) \<and>
   handle exampleVerify exampleDb (requestOf (Some ''Bearer tokenA'') GetSync)
     = (SyncJson [docOf ''test_1'' ''user_1''] [docOf ''attempt_2'' ''user_1''], exampleDb) \<and>
   bearerToken (authorization (requestOf (Some ''Bearer'') GetSync)) = None \<and>
   handle exampleVerify exampleDb (requestOf (Some ''Bearer'') GetSync) = (Status401, exampleDb) \<and>
   bearerToken (authorization (requestOf (Some ''Bearer forged'') GetSync)) = Some ''forged'' \<and>
   exampleVerify ''forged'' = None \<and>
   handle exampleVerify exampleDb (requestOf (Some ''Bearer forged'') GetSync) = (Status403, exampleDb)"
proof -
  let ?ok = "requestOf (Some ''Bearer tokenA'') GetSync"
  let ?none = "requestOf (Some ''Bearer'') GetSync"
  let ?bad = "requestOf (Some ''Bearer forged'') GetSync"
  have t: "bearerToken (authorization ?ok) = Some ''tokenA''"
    and n: "bearerToken (authorization ?none) = None"
    and f: "bearerToken (authorization ?bad) = Some ''forged''"
    by (simp_all add: bearerToken_def requestOf_def)
  have v: "exampleVerify ''tokenA'' = Some userA" and fv: "exampleVerify ''forged'' = None"
    by (simp_all add: exampleVerify_def)
  have r: "isRead (route ?ok)" and rt: "route ?ok = GetSync"
    by (simp_all add: isRead_def requestOf_def)
  have own: "ownedBy (id_user userA) (tests_db exampleDb) = [docOf ''test_1'' ''user_1'']"
    "ownedBy (id_user userA) (attempts_db exampleDb) = [docOf ''attempt_2'' ''user_1'']"
    by (simp_all add: ownedBy_def backend_examples)
  note th = reads_are_scoped[where verify = exampleVerify and d = exampleDb]
  have "snd (handle exampleVerify exampleDb ?ok) = exampleDb"
    and "fst (handle exampleVerify exampleDb ?ok) =
           SyncJson (ownedBy (id_user userA) (tests_db exampleDb))
                    (ownedBy (id_user userA) (attempts_db exampleDb))"
    using th[of ?ok] t v r rt by blast+
  then have a: "handle exampleVerify exampleDb ?ok
     = (SyncJson [docOf ''test_1'' ''user_1''] [docOf ''attempt_2'' ''user_1''], exampleDb)"
    unfolding own by (simp add: prod_eq_iff)
  have b: "handle exampleVerify exampleDb ?none = (Status401, exampleDb)"
    using th[of ?none] n by blast
  have c: "handle exampleVerify exampleDb ?bad = (Status403, exampleDb)"
    using th[of ?bad] f fv by blast
  show ?thesis using t v r a n b f fv c by blast
qed

theorem bulk_sync_replaces_own_records_witness:
  "bearerToken (authorization objectSync) = Some ''tokenA'' \<and>
   exampleVerify ''tokenA'' = Some userA \<and>
   route objectSync = PostSync (Some [ObjectValue unownedDoc]) None \<and>
   allObjects (Some [ObjectValue unownedDoc]) \<and> allObjects None \<and>
   fst (handle exampleVerify exampleDb objectSync) = MessageJson \<and>
   ownedBy ''user_1'' (tests_db (snd (handle exampleVerify exampleDb objectSync)))
     = [docOf ''test_9'' ''user_1''] \<and>
   ownedBy ''user_1'' (attempts_db (snd (handle exampleVerify exampleDb objectSync))) = [] \<and>
   ownedBy ''user_2'' (tests_db (snd (handle exampleVerify exampleDb objectSync)))
     = [docOf ''test_2'' ''user_2''] \<and>
   bearerToken (authorization nullSync) = Some ''tokenA'' \<and>
   route nullSync = PostSync (Some [OtherValue]) (Some []) \<and>
   hasOther (Some [OtherValue]) \<and>
   handle exampleVerify exampleDb nullSync = (Status500, exampleDb)"
proof -
  have t: "bearerToken (authorization objectSync) = Some ''tokenA''"
    and tn: "bearerToken (authorization nullSync) = Some ''tokenA''"
    by (simp_all add: bearerToken_def requestOf_def objectSync_def nullSync_def)
  have v: "exampleVerify ''tokenA'' = Some userA" by (simp add: exampleVerify_def)
  have r: "route objectSync = PostSync (Some [ObjectValue unownedDoc]) None"
    and rn: "route nullSync = PostSync (Some [OtherValue]) (Some [])"
    by (simp_all add: requestOf_def objectSync_def nullSync_def)
  have ao: "allObjects (Some [ObjectValue unownedDoc])" "allObjects None"
    and ho: "hasOther (Some [OtherValue])"
    by (simp_all add: allObjects_def hasOther_def)
  have i: "id_user userA = ''user_1''" by (simp add: userA_def)
  have ne: "''user_2'' \<noteq> id_user userA" by (simp add: userA_def)
  note th = bulk_sync_replaces_own_records[where verify = exampleVerify and d = exampleDb, OF t v r]
  note thn = bulk_sync_replaces_own_records[where verify = exampleVerify and d = exampleDb, OF tn v rn]
  have m: "fst (handle exampleVerify exampleDb objectSync) = MessageJson"
    using th ao by blast
  have "ownedBy (id_user userA) (tests_db (snd (handle exampleVerify exampleDb objectSync)))
          = map (stampOwner (id_user userA)) (arrayOrEmpty (Some [ObjectValue unownedDoc]))"
    using th ao by blast
  then have o1: "ownedBy ''user_1'' (tests_db (snd (handle exampleVerify exampleDb objectSync)))
          = [docOf ''test_9'' ''user_1'']"
    unfolding i by (simp add: arrayOrEmpty_def stampOwner_def unownedDoc_def docOf_def)
  have "ownedBy (id_user userA) (attempts_db (snd (handle exampleVerify exampleDb objectSync)))
          = map (stampOwner (id_user userA)) (arrayOrEmpty None)"
    using th ao by blast
  then have o2: "ownedBy ''user_1'' (attempts_db (snd (handle exampleVerify exampleDb objectSync))) = []"
    unfolding i by (simp add: arrayOrEmpty_def)
  have "ownedBy ''user_2'' (tests_db (snd (handle exampleVerify exampleDb objectSync)))
      = ownedBy ''user_2'' (tests_db exampleDb)"
    using th ne by blast
  moreover have "ownedBy ''user_2'' (tests_db exampleDb) = [docOf ''test_2'' ''user_2'']"
    by (simp add: ownedBy_def exampleDb_def docOf_def)
  ultimately have o3: "ownedBy ''user_2'' (tests_db (snd (handle exampleVerify exampleDb objectSync)))
      = [docOf ''test_2'' ''user_2'']"
    by simp
  have n: "handle exampleVerify exampleDb nullSync = (Status500, exampleDb)"
    using thn ho by blast
  show ?thesis using t v r ao m o1 o2 o3 tn rn ho n by blast
qed

text \<open>
  The claim C10 as stated fails on the body \<^verbatim>\<open>{"tests": [null], "attempts": []}\<close>:
  the handler answers 500 and the user's stored tests and attempts, which the body does
  not hold, are still there.
\<close>

theorem bulk_sync_null_element_counterexample:
  "fst (handle exampleVerify exampleDb nullSync) = Status500 \<and>
   ownedBy ''user_1'' (tests_db (snd (handle exampleVerify exampleDb nullSync)))
     = [docOf ''test_1'' ''user_1''] \<and>
   ownedBy ''user_1'' (attempts_db (snd (handle exampleVerify exampleDb nullSync)))
     = [docOf ''attempt_2'' ''user_1'']"
  by (simp add: handle_def authenticateToken_def bearerToken_def serve_def pushArray_def
        ownedBy_def backend_examples Let_def)

section \<open>Properties: streak\<close>

lemma toDateString_fixed:
  assumes "- dayMs < off" and "off < dayMs"
  shows "toDateString (fixedOffset off) t = (t + off) div dayMs"
  using assms unfolding toDateString_def fixedOffset_def dayMs_def Let_def
  by (auto; presburger)

lemma js_Set_foldl:
  "distinct acc \<Longrightarrow>
     distinct (foldl (\<lambda>acc x. if x \<in> set acc then acc else acc @ [x]) acc xs) \<and>
     set (foldl (\<lambda>acc x. if x \<in> set acc then acc else acc @ [x]) acc xs) = set acc \<union> set xs"
  by (induction xs arbitrary: acc) auto

lemma js_Set_props: "distinct (js_Set xs)" "set (js_Set xs) = set xs"
  using js_Set_foldl[of "[]" xs] by (simp_all add: js_Set_def)

lemma descending_of_sorted_key:
  assumes "sorted (map f u)" and "distinct u"
    and "\<And>a b. f a \<le> f b \<Longrightarrow> a \<noteq> b \<Longrightarrow> (b::int) < a"
  shows "sorted_wrt (\<lambda>a b. b < a) u"
  using assms(1,2)
proof (induction u)
  case Nil
  then show ?case by simp
next
  case (Cons x u)
  then show ?case using assms(3) by auto
qed

lemma uniqueDates_descending:
  fixes m :: "int \<Rightarrow> int"
  assumes "\<And>a b. a < b \<Longrightarrow> m a < m b"
  shows "sorted_wrt (\<lambda>a b. b < a) (sort_key (\<lambda>d. - m d) (js_Set ds))"
    and "set (sort_key (\<lambda>d. - m d) (js_Set ds)) = set ds"
proof -
  have mono: "b < a" if "- m a \<le> - m b" and "a \<noteq> b" for a b :: int
  proof (rule ccontr)
    assume "\<not> b < a"
    with that(2) have "a < b" by simp
    from assms[OF this] that(1) show False by simp
  qed
  show "sorted_wrt (\<lambda>a b. b < a) (sort_key (\<lambda>d. - m d) (js_Set ds))"
    by (rule descending_of_sorted_key[where f = "\<lambda>d. - m d"])
       (simp_all add: js_Set_props mono)
  show "set (sort_key (\<lambda>d. - m d) (js_Set ds)) = set ds"
    by (simp add: js_Set_props)
qed

lemma day_ratio: "(real_of_int x / 86400000 = 1) = (x = 86400000)"
proof -
  have "(real_of_int x / 86400000 = 1) = (real_of_int x = 86400000)" by simp
  also have "\<dots> = (x = 86400000)" by linarith
  finally show ?thesis .
qed

lemma fixedOffset_step:
  "(real_of_int (fixedOffset off prev - fixedOffset off current) / 86400000 = 1)
     = (current = prev - 1)"
  unfolding day_ratio fixedOffset_def dayMs_def by auto

lemma streakLoop_fixed:
  "streakLoop (fixedOffset off) prev (c # rest) acc =
     (if c = prev - 1 then streakLoop (fixedOffset off) c rest (Suc acc) else acc)"
  by (simp only: streakLoop.simps fixedOffset_step)

lemma streakLoop_run:
  assumes "sorted_wrt (\<lambda>a b. b < a) (prev # rest)"
  shows "\<exists>r. streakLoop (fixedOffset off) prev rest acc = acc + r \<and>
           (\<forall>j \<le> r. prev - int j \<in> set (prev # rest)) \<and>
           prev - int (Suc r) \<notin> set (prev # rest)"
  using assms
proof (induction rest arbitrary: prev acc)
  case Nil
  show ?case by (intro exI[of _ 0]) simp
next
  case (Cons c rest)
  have desc: "sorted_wrt (\<lambda>a b. b < a) (c # rest)" and lt: "\<forall>y \<in> set (c # rest). y < prev"
    using Cons.prems by simp_all
  have below: "\<forall>y \<in> set rest. y < c" using desc by simp
  show ?case
  proof (cases "c = prev - 1")
    case True
    from Cons.IH[OF desc, of "Suc acc"] obtain r where
      r: "streakLoop (fixedOffset off) c rest (Suc acc) = Suc acc + r"
         "\<forall>j \<le> r. c - int j \<in> set (c # rest)"
         "c - int (Suc r) \<notin> set (c # rest)" by blast
    have loop: "streakLoop (fixedOffset off) prev (c # rest) acc = acc + Suc r"
      using True r(1) by (simp only: streakLoop_fixed) simp
    have mem: "prev - int j \<in> set (prev # c # rest)" if "j \<le> Suc r" for j
    proof (cases j)
      case 0
      then show ?thesis by simp
    next
      case (Suc i)
      then have "i \<le> r" using that by simp
      with r(2) have "c - int i \<in> set (c # rest)" by blast
      moreover have "prev - int j = c - int i" using True Suc by simp
      ultimately show ?thesis by simp
    qed
    have e: "prev - int (Suc (Suc r)) = c - int (Suc r)" using True by simp
    have "c - int (Suc r) \<noteq> prev" using True by simp
    then have out: "prev - int (Suc (Suc r)) \<notin> set (prev # c # rest)"
      unfolding e using r(3) by (simp del: of_nat_Suc)
    show ?thesis using loop mem out by (intro exI[of _ "Suc r"]) blast
  next
    case False
    have loop: "streakLoop (fixedOffset off) prev (c # rest) acc = acc + 0"
      using False by (simp only: streakLoop_fixed) simp
    have "c < prev - 1" using lt False by auto
    then have "\<forall>y \<in> set (c # rest). y < prev - 1" using below by auto
    then have out: "prev - int (Suc 0) \<notin> set (prev # c # rest)" by auto
    show ?thesis using loop out by (intro exI[of _ 0]) simp
  qed
qed

lemma isRun_of_loop:
  assumes "set u = set days" and "u = first # rest"
    and "\<forall>j \<le> r. first - int j \<in> set u" and "first - int (Suc r) \<notin> set u"
  shows "isRun days first (Suc r)"
  using assms by (auto simp: isRun_def list_all_iff)

lemma toDateString_mono_fixed:
  assumes "- dayMs < off" and "off < dayMs" and "t \<le> now"
  shows "toDateString (fixedOffset off) t \<le> toDateString (fixedOffset off) now"
  unfolding toDateString_fixed[OF assms(1,2)]
  using assms(3) by (simp add: zdiv_mono1 dayMs_def)

lemma yesterday_fixed:
  assumes "- dayMs < off" and "off < dayMs"
  shows "toDateString (fixedOffset off) (now - 86400000) = toDateString (fixedOffset off) now - 1"
proof -
  have "(now + off + (- 1) * 86400000) div 86400000 = - 1 + (now + off) div (86400000::int)"
    by (rule div_mult_self1) simp
  moreover have "now - 86400000 + off = now + off + (- 1) * 86400000" by simp
  ultimately show ?thesis
    unfolding toDateString_fixed[OF assms] dayMs_def by simp
qed

lemma nonempty_of_set: "set u = set d \<Longrightarrow> set d \<noteq> {} \<Longrightarrow> u \<noteq> []"
  by auto

text \<open>
  In a zone with a constant offset from UTC, and with no attempt dated after now, the
  result of \<^verbatim>\<open>calculateStreak\<close> is the streak of the specification.
\<close>

lemma streak_fixed_offset:
  assumes lo: "- dayMs < off" and hi: "off < dayMs"
    and past: "\<forall>h \<in> set history. completedAt h \<le> now"
  shows "streak_spec (attemptDays (fixedOffset off) history) (toDateString (fixedOffset off) now)
           (calculateStreak (fixedOffset off) now history)"
proof (cases "history = []")
  case True
  then show ?thesis by (simp add: calculateStreak_def attemptDays_def streak_spec_def)
next
  case False
  let ?m = "fixedOffset off"
  let ?D = "attemptDays ?m history"
  let ?today = "toDateString ?m now"
  let ?u = "sort_key (\<lambda>d. - ?m d) (js_Set ?D)"
  have mono: "?m a < ?m b" if "a < b" for a b
    using that by (simp add: fixedOffset_def dayMs_def)
  have desc: "sorted_wrt (\<lambda>a b. b < a) ?u" and setu: "set ?u = set ?D"
    using uniqueDates_descending[of ?m ?D, OF mono] by simp_all
  have "set ?D \<noteq> {}" using False by (simp add: attemptDays_def)
  then have "?u \<noteq> []" by (rule nonempty_of_set[OF setu])
  then obtain first rest where u: "?u = first # rest" by (cases ?u) auto
  have "\<forall>y \<in> set (first # rest). y \<le> first"
    using desc unfolding u by auto
  moreover have "set ?D = set (first # rest)" using setu unfolding u by simp
  ultimately have top: "\<forall>y \<in> set ?D. y \<le> first" by (simp only:)
  have first_in: "first \<in> set ?D" using setu unfolding u by auto
  have le_today: "\<forall>y \<in> set ?D. y \<le> ?today"
    using past toDateString_mono_fixed[OF lo hi] by (auto simp: attemptDays_def)
  from streakLoop_run[of first rest off 1] desc obtain r where
    r: "streakLoop ?m first rest 1 = 1 + r"
       "\<forall>j \<le> r. first - int j \<in> set (first # rest)"
       "first - int (Suc r) \<notin> set (first # rest)"
    unfolding u by blast
  have run: "isRun ?D first (Suc r)"
    using isRun_of_loop[OF setu u] r(2,3) unfolding u by blast
  have calc: "calculateStreak ?m now history =
      (if first = ?today \<or> first = ?today - 1 then Suc r else 0)"
    using False u r(1)
    by (simp add: calculateStreak_def Let_def yesterday_fixed[OF lo hi] attemptDays_def)
  consider (today) "first = ?today" | (yesterday) "first = ?today - 1"
    | (older) "first \<noteq> ?today" "first \<noteq> ?today - 1" by blast
  then show ?thesis
  proof cases
    case today
    then show ?thesis using calc run first_in by (simp add: streak_spec_def)
  next
    case yesterday
    then have "?today \<notin> set ?D" using top by auto
    then show ?thesis using calc run first_in yesterday by (simp add: streak_spec_def)
  next
    case older
    have "first \<le> ?today" using le_today first_in by blast
    with older have "first < ?today - 1" by simp
    with top have "?today \<notin> set ?D" and "?today - 1 \<notin> set ?D" by auto
    then show ?thesis using calc older by (simp add: streak_spec_def)
  qed
qed

lemmas streak_eval =
  attemptDays_def toDateString_def newYork2026_def dayMs_def attemptAt_def
  mondayNoon_def sundayNoon_def mondayEvening_def calculateStreak_def js_Set_def
  fixedOffset_def Let_def

lemma streak_three_days_ending_yesterday:
  "calculateStreak (fixedOffset 0) (20521 * 86400000 + 3600000)
     [attemptAt (20520 * 86400000 + 7200000), attemptAt (20520 * 86400000 + 100),
      attemptAt (20519 * 86400000 + 500), attemptAt (20518 * 86400000 + 86399999),
      attemptAt (20515 * 86400000)] = 3"
  by (simp add: streak_eval)

text \<open>
  Claim C4. The loop of \<^verbatim>\<open>calculateStreak\<close> counts a day as consecutive when the two
  local midnights are exactly 86400000 ms apart. Across a change of the clocks they are
  23 or 25 hours apart: with attempts on Sunday 8 and Monday 9 March 2026 in New York,
  asked on the Monday evening, the code gives 1, where the two consecutive calendar days
  make a streak of 2 (and where the same instants give 2 in a zone that stays at UTC-5).
\<close>

theorem streak_broken_by_clock_change:
  "attemptDays newYork2026 [attemptAt mondayNoon, attemptAt sundayNoon] = [20521, 20520] \<and>
   toDateString newYork2026 mondayEvening = 20521 \<and>
   calculateStreak newYork2026 mondayEvening [attemptAt mondayNoon, attemptAt sundayNoon] = 1 \<and>
   streak_spec [20521, 20520] 20521 2 \<and>
   \<not> streak_spec [20521, 20520] 20521 1 \<and>
   calculateStreak (fixedOffset (- 18000000)) mondayEvening [attemptAt mondayNoon, attemptAt sundayNoon] = 2"
proof (intro conjI)
  show "attemptDays newYork2026 [attemptAt mondayNoon, attemptAt sundayNoon] = [20521, 20520]"
    by (simp add: streak_eval)
  show "toDateString newYork2026 mondayEvening = 20521"
    by (simp add: streak_eval)
  show "calculateStreak newYork2026 mondayEvening [attemptAt mondayNoon, attemptAt sundayNoon] = 1"
    by (simp add: streak_eval)
  show "streak_spec [20521, 20520] 20521 2"
    by (auto simp: streak_spec_def isRun_def list_all_iff)
  show "\<not> streak_spec [20521, 20520] 20521 1"
    by (simp add: streak_spec_def isRun_def)
  show "calculateStreak (fixedOffset (- 18000000)) mondayEvening [attemptAt mondayNoon, attemptAt sundayNoon] = 2"
    by (simp add: streak_eval)
qed

end
